theory Spec2Isabelle
  imports Complex_Main "HOL-Library.Multiset"
begin

section \<open>Data model\<close>

text \<open>
  The nester of \<^verbatim>\<open>nfp_function.py\<close> works on Python dictionaries, lists and numbers.
  Numbers (Python \<^verbatim>\<open>int\<close> and \<^verbatim>\<open>float\<close>) are modelled as \<^typ>\<open>real\<close>: rounding of
  floating point arithmetic is not part of the model. A point \<^verbatim>\<open>{'x': .., 'y': ..}\<close> and a
  clipper coordinate \<^verbatim>\<open>[x, y]\<close> are both a pair, so the list comprehensions that convert
  between the two are identities here. An exception is a value of \<open>error\<close>.
\<close>

datatype error =
  TypeError | IndexError | KeyError | ValueError | ZeroDivisionError | UnboundLocalError

type_synonym point = "real \<times> real"

type_synonym ring = "point list"

text \<open>
  A shape dictionary has the keys \<^verbatim>\<open>area\<close>, \<^verbatim>\<open>p_id\<close>, \<^verbatim>\<open>points\<close>; the container dictionary has
  \<^verbatim>\<open>points\<close>, \<^verbatim>\<open>p_id\<close>, \<^verbatim>\<open>width\<close>, \<^verbatim>\<open>height\<close>. Both travel through the same code
  (\<^verbatim>\<open>pair['A']\<close> is either), so one record holds the union of the keys; a key a dictionary
  does not have is \<open>0\<close> and is never read by the code modelled here.
\<close>

record polygon =
  p_id :: string
  points :: ring
  area :: real
  width :: real
  height :: real

text \<open>The configuration dictionary, with \<^verbatim>\<open>BIN_HEIGHT\<close> of the settings module.\<close>

record config =
  curveTolerance :: real
  spacing :: real
  rotations :: int
  populationSize :: int
  mutationRate :: real
  useHoles :: bool
  exploreConcave :: bool
  BIN_HEIGHT :: real

text \<open>
  The external polygon clipping library (\<^verbatim>\<open>pyclipper\<close>) is a parameter: a record of the
  functions the nester calls. \<open>OffsetExecute miter tol path delta\<close> stands for
  \<^verbatim>\<open>PyclipperOffset(miter, tol)\<close>, \<^verbatim>\<open>AddPath(path, JT_ROUND, ET_CLOSEDPOLYGON)\<close>,
  \<^verbatim>\<open>Execute(delta)\<close>.
\<close>

record clipper =
  SimplifyPolygon :: "ring \<Rightarrow> ring list option"
  Area :: "ring \<Rightarrow> real"
  CleanPolygon :: "ring \<Rightarrow> real \<Rightarrow> ring option"
  MinkowskiSum :: "ring \<Rightarrow> ring \<Rightarrow> ring list"
  OffsetExecute :: "real \<Rightarrow> real \<Rightarrow> ring \<Rightarrow> real \<Rightarrow> ring list"

text \<open>The dictionary \<^verbatim>\<open>rotate_polygon\<close> returns.\<close>

record rotated =
  rpoints :: ring
  rwidth :: real
  rheight :: real

text \<open>
  The module \<^verbatim>\<open>tools.nfp_utls\<close> is not among the sources. Its functions are parameters,
  but for \<^verbatim>\<open>polygon_area\<close>, which is defined below.
\<close>

record nfp_utls =
  rotate_polygon :: "ring \<Rightarrow> real \<Rightarrow> rotated"
  is_rectangle :: "ring \<Rightarrow> real \<Rightarrow> bool"
  nfp_rectangle :: "ring \<Rightarrow> ring \<Rightarrow> ring list option"
  nfp_polygon :: "polygon \<Rightarrow> polygon \<Rightarrow> bool \<Rightarrow> bool \<Rightarrow> ring list option"
  point_in_polygon :: "point \<Rightarrow> ring \<Rightarrow> bool option"
  get_polygon_bounds :: "ring \<Rightarrow> (real \<times> real \<times> real \<times> real) option"

section \<open>Geometry\<close>

text \<open>
  Modelled from the spec: \<^verbatim>\<open>nfp_utls.polygon_area\<close> is missing from the sources. The spec
  gives the shoelace formula \<open>A = 1/2 * sum (x_i * y_(i+1) - x_(i+1) * y_i)\<close> over the closed
  ring, positive for a counter-clockwise ring.
\<close>

fun cross_sum :: "ring \<Rightarrow> real" where
  "cross_sum (p # q # ps) = (fst p * snd q - fst q * snd p) + cross_sum (q # ps)"
| "cross_sum _ = 0"

definition polygon_area :: "ring \<Rightarrow> real" where
  "polygon_area pts = (case pts of [] \<Rightarrow> 0 | p # _ \<Rightarrow> cross_sum (pts @ [p]) / 2)"

section \<open>Ingestion\<close>

text \<open>\<^verbatim>\<open>Nester.clean_polygon\<close>: the search for the biggest simplified ring.\<close>

fun biggest_loop :: "clipper \<Rightarrow> ring list \<Rightarrow> ring \<Rightarrow> real \<Rightarrow> ring" where
  "biggest_loop cl [] biggest biggest_area = biggest"
| "biggest_loop cl (s # ss) biggest biggest_area =
     (let a = \<bar>Area cl s\<bar>
      in if a > biggest_area then biggest_loop cl ss s a
         else biggest_loop cl ss biggest biggest_area)"

definition clean_polygon :: "clipper \<Rightarrow> config \<Rightarrow> ring \<Rightarrow> ring option" where
  "clean_polygon cl cfg poly =
     (case SimplifyPolygon cl poly of
        None \<Rightarrow> None
      | Some [] \<Rightarrow> None
      | Some (s0 # ss) \<Rightarrow>
          (case CleanPolygon cl (biggest_loop cl ss s0 (Area cl s0)) (curveTolerance cfg) of
             None \<Rightarrow> None
           | Some [] \<Rightarrow> None
           | Some clean \<Rightarrow> Some clean))"

text \<open>
  The body of the loop of \<^verbatim>\<open>Nester.add_objects\<close>. Iterating over the \<^verbatim>\<open>None\<close> that
  \<^verbatim>\<open>clean_polygon\<close> may return is a \<^verbatim>\<open>TypeError\<close>. The counter \<^verbatim>\<open>p_id\<close> is never
  incremented in the source, so every shape gets the id \<^verbatim>\<open>'0'\<close>.
\<close>

definition make_shape :: "ring \<Rightarrow> polygon" where
  "make_shape pts =
     (let a = polygon_area pts
      in \<lparr>p_id = ''0'', points = (if a > 0 then rev pts else pts), area = \<bar>a\<bar>,
          width = 0, height = 0\<rparr>)"

fun add_objects_loop ::
  "clipper \<Rightarrow> config \<Rightarrow> ring list \<Rightarrow> polygon list \<Rightarrow> real \<Rightarrow> error + (polygon list \<times> real)"
where
  "add_objects_loop cl cfg [] shps total_area = Inr (shps, total_area)"
| "add_objects_loop cl cfg (obj # objs) shps total_area =
     (case clean_polygon cl cfg obj of
        None \<Rightarrow> Inl TypeError
      | Some pts \<Rightarrow>
          add_objects_loop cl cfg objs (shps @ [make_shape pts])
            (total_area + area (make_shape pts)))"


text \<open>
  The key of the NFP cache. The source serialises the key dictionary with \<^verbatim>\<open>json.dumps\<close>
  and uses the text as the dictionary key; the model uses the fields themselves, that is,
  it takes the serialisation to be injective. With numbers as reals, an angle that is the
  integer \<^verbatim>\<open>0\<close> in one key and the float \<^verbatim>\<open>0.0\<close> in another is one angle here, while the
  two texts differ; the properties of the cache below do not depend on what the keys are.
\<close>

record nfp_key =
  A_id :: string
  B_id :: string
  inside :: bool
  A_rotation :: real
  B_rotation :: real

text \<open>An NFP value is a list of rings, or \<^verbatim>\<open>None\<close> where the NFP routine returned none.\<close>

type_synonym nfp_cache = "nfp_key \<rightharpoonup> ring list option"

text \<open>
  A pair handed to \<^verbatim>\<open>process_nfp\<close>. \<open>pair_A\<close> is \<^verbatim>\<open>None\<close> when the pair was built from
  a nester that has no container.
\<close>

record nfp_pair =
  pair_A :: "polygon option"
  pair_B :: polygon
  pair_key :: nfp_key

text \<open>
  A genome: \<^verbatim>\<open>placement\<close> is a list of \<^verbatim>\<open>[id, shape]\<close>, \<^verbatim>\<open>rotation\<close> a list of angles,
  and the key \<^verbatim>\<open>fitness\<close> is there only once the genome has been evaluated.
\<close>

record individual =
  placement :: "(string \<times> polygon) list"
  rotation :: "real list"
  fitness :: "real option"

text \<open>What the placement worker returns (\<^verbatim>\<open>res['fitness']\<close>, \<^verbatim>\<open>res['placements']\<close>).\<close>

record result =
  res_fitness :: real
  res_placements :: "(string \<times> real \<times> real \<times> real) list list"

record genetic_algorithm =
  bin_width :: real
  bin_height :: real
  bin_polygon :: polygon
  population :: "individual list"

record nester =
  container :: "polygon option"
  shapes :: "polygon list option"
  shapes_max_length :: real
  results :: "result list"
  nfp_cache :: nfp_cache
  GA :: "genetic_algorithm option"
  best :: "result option"
  container_bounds :: "(real \<times> real \<times> real \<times> real) option"

text \<open>
  \<^verbatim>\<open>Nester.add_objects\<close>, for a list of objects. An exception leaves the loop; the model
  then returns the error alone.
\<close>

definition add_objects :: "clipper \<Rightarrow> config \<Rightarrow> nester \<Rightarrow> ring list \<Rightarrow> error + nester" where
  "add_objects cl cfg st objects =
     (case add_objects_loop cl cfg objects (case shapes st of None \<Rightarrow> [] | Some s \<Rightarrow> s) 0 of
        Inl e \<Rightarrow> Inl e
      | Inr (shps, total_area) \<Rightarrow>
          if BIN_HEIGHT cfg = 0 then Inl ZeroDivisionError
          else Inr (st\<lparr>shapes := Some shps,
                       shapes_max_length := total_area / BIN_HEIGHT cfg * 3\<rparr>))"

text \<open>The bounding loop of \<^verbatim>\<open>Nester.add_container\<close>, with its \<^verbatim>\<open>if\<close>/\<^verbatim>\<open>elif\<close> pairs.\<close>

fun bin_loop :: "ring \<Rightarrow> real \<times> real \<times> real \<times> real \<Rightarrow> real \<times> real \<times> real \<times> real" where
  "bin_loop [] b = b"
| "bin_loop (pt # pts) (xbinmax, xbinmin, ybinmax, ybinmin) =
     (let (xmax, xmin) =
            (if fst pt > xbinmax then (fst pt, xbinmin)
             else if fst pt < xbinmin then (xbinmax, fst pt) else (xbinmax, xbinmin));
          (ymax, ymin) =
            (if snd pt > ybinmax then (snd pt, ybinmin)
             else if snd pt < ybinmin then (ybinmax, snd pt) else (ybinmax, ybinmin))
      in bin_loop pts (xmax, xmin, ymax, ymin))"

definition add_container ::
  "clipper \<Rightarrow> nfp_utls \<Rightarrow> config \<Rightarrow> nester \<Rightarrow> ring \<Rightarrow> error + nester"
where
  "add_container cl ut cfg st cont =
     (let c0 = (case container st of
                  None \<Rightarrow> \<lparr>p_id = [], points = [], area = 0, width = 0, height = 0\<rparr>
                | Some c \<Rightarrow> c)
      in case clean_polygon cl cfg cont of
           None \<Rightarrow> Inl TypeError
         | Some [] \<Rightarrow> Inl IndexError
         | Some (p0 # ps) \<Rightarrow>
             (let (xbinmax, xbinmin, ybinmax, ybinmin) =
                    bin_loop (p0 # ps) (fst p0, fst p0, snd p0, snd p0)
              in Inr (st\<lparr>container :=
                            Some (c0\<lparr>points := p0 # ps, p_id := ''-1'',
                                     width := xbinmax - xbinmin, height := ybinmax - ybinmin\<rparr>),
                          container_bounds := get_polygon_bounds ut (p0 # ps)\<rparr>)))"

section \<open>The NFP of a pair\<close>

text \<open>
  \<^verbatim>\<open>minkowski_difference\<close>. The loop keeps the first ring of the solution whose area is
  smaller than every area before it. With an empty solution \<^verbatim>\<open>clipper_nfp\<close> stays
  \<^verbatim>\<open>None\<close> and \<^verbatim>\<open>len(clipper_nfp)\<close> raises.
\<close>

fun select_loop :: "ring list \<Rightarrow> real option \<Rightarrow> ring option \<Rightarrow> ring option" where
  "select_loop [] largest_area clipper_nfp = clipper_nfp"
| "select_loop (p # ps) largest_area clipper_nfp =
     (let sarea = polygon_area p
      in if (case largest_area of None \<Rightarrow> True | Some l \<Rightarrow> l > sarea)
         then select_loop ps (Some sarea) (Some p)
         else select_loop ps largest_area clipper_nfp)"

definition minkowski_difference :: "clipper \<Rightarrow> polygon \<Rightarrow> polygon \<Rightarrow> error + ring list" where
  "minkowski_difference cl A B =
     (let Ac = points A;
          Bc = map (\<lambda>p. (fst p * - 1, snd p * - 1)) (points B);
          solution = MinkowskiSum cl Ac Bc
      in case select_loop solution None None of
           None \<Rightarrow> Inl TypeError
         | Some [] \<Rightarrow> Inr [[]]
         | Some (v # vs) \<Rightarrow>
             (case Bc of
                [] \<Rightarrow> Inl IndexError
              | b0 # _ \<Rightarrow>
                  Inr [map (\<lambda>q. (fst q + fst b0 * - 1, snd q + snd b0 * - 1)) (v # vs)]))"

text \<open>The sanity loop of \<^verbatim>\<open>process_nfp\<close>: true when some checked ring is smaller than A.\<close>

fun sanity_fails :: "bool \<Rightarrow> real \<Rightarrow> ring list \<Rightarrow> nat \<Rightarrow> bool" where
  "sanity_fails search_edges area_A [] i = False"
| "sanity_fails search_edges area_A (r # rs) i =
     (if (\<not> search_edges \<or> i = 0) \<and> \<bar>polygon_area r\<bar> < \<bar>area_A\<bar> then True
      else sanity_fails search_edges area_A rs (Suc i))"

text \<open>
  The orientation loop of \<^verbatim>\<open>process_nfp\<close> for an outer NFP, over the indices of the list.
  \<^verbatim>\<open>nfp[i][0]\<close> of an empty ring raises.
\<close>

fun orient_loop :: "nfp_utls \<Rightarrow> nat list \<Rightarrow> ring list \<Rightarrow> error + ring list" where
  "orient_loop ut [] nfp = Inr nfp"
| "orient_loop ut (i # idxs) nfp =
     (let nfp1 = (if polygon_area (nfp ! i) > 0 then nfp[i := rev (nfp ! i)] else nfp)
      in if i > 0 then
           (case nfp1 ! i of
              [] \<Rightarrow> Inl IndexError
            | v # _ \<Rightarrow>
                if point_in_polygon ut v (nfp1 ! 0) = Some True then
                  (if polygon_area (nfp1 ! i) < 0
                   then orient_loop ut idxs (nfp1[i := rev (nfp1 ! i)])
                   else orient_loop ut idxs nfp1)
                else orient_loop ut idxs nfp1)
         else orient_loop ut idxs nfp1)"

text \<open>
  \<^verbatim>\<open>Nester.process_nfp\<close>. The result is \<^verbatim>\<open>None\<close> or the dictionary
  \<^verbatim>\<open>{'key': .., 'value': ..}\<close>, here a pair.
\<close>

definition rotate_points :: "nfp_utls \<Rightarrow> polygon \<Rightarrow> real \<Rightarrow> polygon" where
  "rotate_points ut P angle = P\<lparr>points := rpoints (rotate_polygon ut (points P) angle)\<rparr>"

definition process_outer ::
  "clipper \<Rightarrow> nfp_utls \<Rightarrow> config \<Rightarrow> nfp_key \<Rightarrow> polygon \<Rightarrow> polygon \<Rightarrow>
   error + (nfp_key \<times> ring list option) option"
where
  "process_outer cl ut cfg key A B =
     (case (if exploreConcave cfg
            then Inr (nfp_polygon ut A B False (exploreConcave cfg))
            else (case minkowski_difference cl A B of
                    Inl e \<Rightarrow> Inl e
                  | Inr rs \<Rightarrow> Inr (Some rs))) of
        Inl e \<Rightarrow> Inl e
      | Inr None \<Rightarrow> Inr None
      | Inr (Some nfp) \<Rightarrow>
          if length nfp = 0 then Inr None
          else if sanity_fails (exploreConcave cfg) (polygon_area (points A)) nfp 0
          then Inr None
          else (case orient_loop ut [0..<length nfp] nfp of
                  Inl e \<Rightarrow> Inl e
                | Inr nfp' \<Rightarrow> Inr (Some (key, Some nfp'))))"

definition process_inner ::
  "nfp_utls \<Rightarrow> config \<Rightarrow> nfp_key \<Rightarrow> polygon \<Rightarrow> polygon \<Rightarrow>
   error + (nfp_key \<times> ring list option) option"
where
  "process_inner ut cfg key A B =
     (let nfp = (if is_rectangle ut (points A) 0.0001
                 then nfp_rectangle ut (points A) (points B)
                 else nfp_polygon ut A B True (exploreConcave cfg))
      in Inr (Some (key,
           map_option (map (\<lambda>r. if polygon_area r > 0 then rev r else r)) nfp)))"

definition process_nfp ::
  "clipper \<Rightarrow> nfp_utls \<Rightarrow> config \<Rightarrow> nfp_pair option \<Rightarrow>
   error + (nfp_key \<times> ring list option) option"
where
  "process_nfp cl ut cfg pair =
     (case pair of
        None \<Rightarrow> Inr None
      | Some pr \<Rightarrow>
          (case pair_A pr of
             None \<Rightarrow> Inl TypeError
           | Some A0 \<Rightarrow>
               (let A = rotate_points ut A0 (A_rotation (pair_key pr));
                    B = rotate_points ut (pair_B pr) (B_rotation (pair_key pr))
                in if inside (pair_key pr) then process_inner ut cfg (pair_key pr) A B
                   else process_outer cl ut cfg (pair_key pr) A B)))"


section \<open>The genetic algorithm\<close>

text \<open>
  The module \<^verbatim>\<open>random\<close> is a source of numbers the program does not control. The model
  reads them from two sequences, the results of the successive calls of
  \<^verbatim>\<open>random.random()\<close> and the raw draws behind \<^verbatim>\<open>random.randint\<close>, each with the
  position of the next unread element. Every run of the program is the run of the model
  on some such source, so a theorem for all sources holds for all runs.
\<close>

record rng =
  floats :: "nat \<Rightarrow> real"
  fpos :: nat
  ints :: "nat \<Rightarrow> nat"
  ipos :: nat

definition random_random :: "rng \<Rightarrow> real \<times> rng" where
  "random_random r = (floats r (fpos r), r\<lparr>fpos := Suc (fpos r)\<rparr>)"

text \<open>\<^verbatim>\<open>random.randint(a, b)\<close>: some integer of \<open>[a, b]\<close>, a \<^verbatim>\<open>ValueError\<close> on an empty range.\<close>

definition randint :: "int \<Rightarrow> int \<Rightarrow> rng \<Rightarrow> error + (int \<times> rng)" where
  "randint a b r =
     (if b < a then Inl ValueError
      else Inr (a + int (ints r (ipos r) mod nat (b - a + 1)), r\<lparr>ipos := Suc (ipos r)\<rparr>))"

text \<open>\<^verbatim>\<open>shuffle_array\<close> inside \<^verbatim>\<open>random_angle\<close>: \<open>i\<close> runs from \<open>len(data) - 1\<close> down to 1.\<close>

fun shuffle_loop :: "nat \<Rightarrow> 'a list \<Rightarrow> rng \<Rightarrow> error + ('a list \<times> rng)" where
  "shuffle_loop 0 data r = Inr (data, r)"
| "shuffle_loop (Suc k) data r =
     (case randint 0 (int (Suc k)) r of
        Inl e \<Rightarrow> Inl e
      | Inr (j, r') \<Rightarrow>
          shuffle_loop k (data[Suc k := data ! nat j, nat j := data ! Suc k]) r')"

definition shuffle_array :: "'a list \<Rightarrow> rng \<Rightarrow> error + ('a list \<times> rng)" where
  "shuffle_array data r = shuffle_loop (length data - 1) data r"

text \<open>
  The second loop of \<^verbatim>\<open>random_angle\<close>. On the first angle that fits it returns
  \<^verbatim>\<open>angle_list[i]\<close>, where \<open>i\<close> is the variable the first loop of the method left behind,
  \<open>rotations - 1\<close>; the inner function \<^verbatim>\<open>shuffle_array\<close> has an \<open>i\<close> of its own.
\<close>

definition fits_bin :: "nfp_utls \<Rightarrow> genetic_algorithm \<Rightarrow> string \<times> polygon \<Rightarrow> real \<Rightarrow> bool" where
  "fits_bin ut ga shape angle =
     (rwidth (rotate_polygon ut (points (snd shape)) angle) < bin_width ga \<and>
      rheight (rotate_polygon ut (points (snd shape)) angle) < bin_height ga)"

fun angle_loop ::
  "nfp_utls \<Rightarrow> genetic_algorithm \<Rightarrow> string \<times> polygon \<Rightarrow> real list \<Rightarrow> nat \<Rightarrow> real list \<Rightarrow> real"
where
  "angle_loop ut ga shape angle_list i [] = 0"
| "angle_loop ut ga shape angle_list i (angle # angles) =
     (if fits_bin ut ga shape angle then angle_list ! i
      else angle_loop ut ga shape angle_list i angles)"

definition random_angle ::
  "nfp_utls \<Rightarrow> config \<Rightarrow> genetic_algorithm \<Rightarrow> string \<times> polygon \<Rightarrow> rng \<Rightarrow> error + (real \<times> rng)"
where
  "random_angle ut cfg ga shape r =
     (case shuffle_array
             (map (\<lambda>i. real i * (360 / real_of_int (rotations cfg))) [0..<nat (rotations cfg)]) r of
        Inl e \<Rightarrow> Inl e
      | Inr (angle_list, r') \<Rightarrow>
          Inr (angle_loop ut ga shape angle_list (nat (rotations cfg - 1)) angle_list, r'))"

text \<open>
  \<^verbatim>\<open>mutate\<close>. The clone has no \<^verbatim>\<open>fitness\<close> key. After the loop \<open>i\<close> is the last index; with
  an empty placement it was never bound.
\<close>

fun swap_loop :: "real \<Rightarrow> nat list \<Rightarrow> 'a list \<Rightarrow> rng \<Rightarrow> 'a list \<times> rng" where
  "swap_loop rate [] pl r = (pl, r)"
| "swap_loop rate (i # idxs) pl r =
     (let (u, r') = random_random r
      in if u < rate then
           (if i + 1 < length pl
            then swap_loop rate idxs (pl[i := pl ! (i + 1), i + 1 := pl ! i]) r'
            else swap_loop rate idxs pl r')
         else swap_loop rate idxs pl r')"

definition mutate ::
  "nfp_utls \<Rightarrow> config \<Rightarrow> genetic_algorithm \<Rightarrow> individual \<Rightarrow> rng \<Rightarrow> error + (individual \<times> rng)"
where
  "mutate ut cfg ga indiv r =
     (let (pl, r1) = swap_loop (0.01 * mutationRate cfg) [0..<length (placement indiv)]
                       (placement indiv) r;
          (u, r2) = random_random r1
      in if u < 0.01 * mutationRate cfg then
           (if length pl = 0 then Inl UnboundLocalError
            else (case random_angle ut cfg ga (pl ! (length pl - 1)) r2 of
                    Inl e \<Rightarrow> Inl e
                  | Inr (a, r3) \<Rightarrow>
                      if length pl - 1 < length (rotation indiv)
                      then Inr (\<lparr>placement = pl,
                                 rotation = (rotation indiv)[length pl - 1 := a],
                                 fitness = None\<rparr>, r3)
                      else Inl IndexError))
         else Inr (\<lparr>placement = pl, rotation = rotation indiv, fitness = None\<rparr>, r2))"

text \<open>
  \<^verbatim>\<open>random_weighted_individual\<close>. \<^verbatim>\<open>pop\<close> is the list \<^verbatim>\<open>self.population\<close> itself, so
  \<^verbatim>\<open>pop.remove\<close> changes the population of the object: the model returns the population
  with the result, also when the call raises.
\<close>

fun weighted_loop ::
  "real \<Rightarrow> real \<Rightarrow> individual list \<Rightarrow> nat list \<Rightarrow> real \<Rightarrow> real \<Rightarrow> individual option"
where
  "weighted_loop rand weight pop [] lower upper = None"
| "weighted_loop rand weight pop (i # idxs) lower upper =
     (if rand > lower \<and> rand < upper then Some (pop ! i)
      else weighted_loop rand weight pop idxs upper
             (upper + 2 * weight * real (length pop - i) / real (length pop)))"

definition weighted_pick ::
  "individual list \<Rightarrow> rng \<Rightarrow> (error + individual) \<times> individual list \<times> rng"
where
  "weighted_pick pop r =
     (let (rand, r') = random_random r
      in if length pop = 0 then (Inl ZeroDivisionError, pop, r')
         else (case weighted_loop rand (1 / real (length pop)) pop [0..<length pop] 0
                      (1 / real (length pop)) of
                 Some g \<Rightarrow> (Inr g, pop, r')
               | None \<Rightarrow> (Inr (pop ! 0), pop, r')))"

definition random_weighted_individual ::
  "individual option \<Rightarrow> individual list \<Rightarrow> rng \<Rightarrow> (error + individual) \<times> individual list \<times> rng"
where
  "random_weighted_individual exclude pop r =
     (case exclude of
        None \<Rightarrow> weighted_pick pop r
      | Some ex \<Rightarrow>
          if ex \<in> set pop then weighted_pick (remove1 ex pop) r
          else (Inl ValueError, pop, r))"

text \<open>\<^verbatim>\<open>mate\<close>, with the inner function \<^verbatim>\<open>contains\<close>.\<close>

fun contains :: "(string \<times> polygon) list \<Rightarrow> string \<Rightarrow> bool" where
  "contains [] shape_id = False"
| "contains (g # gene) shape_id = (if fst g = shape_id then True else contains gene shape_id)"

fun mate_loop ::
  "individual \<Rightarrow> nat list \<Rightarrow> (string \<times> polygon) list \<Rightarrow> real list \<Rightarrow>
   error + ((string \<times> polygon) list \<times> real list)"
where
  "mate_loop other [] gene rot = Inr (gene, rot)"
| "mate_loop other (i # idxs) gene rot =
     (if \<not> contains gene (fst (placement other ! i)) then
        (if i < length (rotation other)
         then mate_loop other idxs (gene @ [placement other ! i]) (rot @ [rotation other ! i])
         else Inl IndexError)
      else mate_loop other idxs gene rot)"

definition mate ::
  "individual \<Rightarrow> individual \<Rightarrow> rng \<Rightarrow> error + ((individual \<times> individual) \<times> rng)"
where
  "mate male female r =
     (case randint 0 (int (length (placement male)) - 1) r of
        Inl e \<Rightarrow> Inl e
      | Inr (cutpoint, r') \<Rightarrow>
          (case mate_loop female (rev [0..<length (placement female)])
                  (take (nat cutpoint) (placement male)) (take (nat cutpoint) (rotation male)) of
             Inl e \<Rightarrow> Inl e
           | Inr (gene1, rot1) \<Rightarrow>
               (case mate_loop male (rev [0..<length (placement male)])
                       (take (nat cutpoint) (placement female))
                       (take (nat cutpoint) (rotation female)) of
                  Inl e \<Rightarrow> Inl e
                | Inr (gene2, rot2) \<Rightarrow>
                    Inr ((\<lparr>placement = gene1, rotation = rot1, fitness = None\<rparr>,
                          \<lparr>placement = gene2, rotation = rot2, fitness = None\<rparr>), r'))))"


text \<open>
  \<^verbatim>\<open>generation\<close>. Sorting reads \<^verbatim>\<open>a['fitness']\<close> of every genome, a \<^verbatim>\<open>KeyError\<close> where
  the key is missing; \<^verbatim>\<open>sorted\<close> is stable, as \<open>sort_key\<close> is. The loop runs on the
  population that \<^verbatim>\<open>random_weighted_individual\<close> shrinks; the \<^verbatim>\<open>print\<close> of the new
  population is left out.
\<close>

definition fitness_of :: "individual \<Rightarrow> real" where
  "fitness_of g = (case fitness g of None \<Rightarrow> 0 | Some f \<Rightarrow> f)"

function generation_loop ::
  "nfp_utls \<Rightarrow> config \<Rightarrow> genetic_algorithm \<Rightarrow> individual list \<Rightarrow> rng \<Rightarrow>
   error + (individual list \<times> rng)"
where
  "generation_loop ut cfg ga new_population r =
     (if int (length new_population) < populationSize cfg then
        (case random_weighted_individual None (population ga) r of
           (Inl e, pop1, r1) \<Rightarrow> Inl e
         | (Inr male, pop1, r1) \<Rightarrow>
             (case random_weighted_individual (Some male) pop1 r1 of
                (Inl e, pop2, r2) \<Rightarrow> Inl e
              | (Inr female, pop2, r2) \<Rightarrow>
                  (case mate male female r2 of
                     Inl e \<Rightarrow> Inl e
                   | Inr (children, r3) \<Rightarrow>
                       (case mutate ut cfg ga (fst children) r3 of
                          Inl e \<Rightarrow> Inl e
                        | Inr (m0, r4) \<Rightarrow>
                            if int (length (new_population @ [m0])) < populationSize cfg then
                              (case mutate ut cfg ga (snd children) r4 of
                                 Inl e \<Rightarrow> Inl e
                               | Inr (m1, r5) \<Rightarrow>
                                   generation_loop ut cfg (ga\<lparr>population := pop2\<rparr>)
                                     (new_population @ [m0] @ [m1]) r5)
                            else generation_loop ut cfg (ga\<lparr>population := pop2\<rparr>)
                                   (new_population @ [m0]) r4))))
      else Inr (new_population, r))"
  by pat_completeness auto
termination
  by (relation "measure (\<lambda>(ut, cfg, ga, new_population, r).
        nat (populationSize cfg - int (length new_population)))") auto

definition generation ::
  "nfp_utls \<Rightarrow> config \<Rightarrow> genetic_algorithm \<Rightarrow> rng \<Rightarrow> error + (genetic_algorithm \<times> rng)"
where
  "generation ut cfg ga r =
     (if list_ex (\<lambda>g. fitness g = None) (population ga) then Inl KeyError
      else (case sort_key fitness_of (population ga) of
              [] \<Rightarrow> Inl IndexError
            | elite # rest \<Rightarrow>
                (case generation_loop ut cfg (ga\<lparr>population := elite # rest\<rparr>) [elite] r of
                   Inl e \<Rightarrow> Inl e
                 | Inr (new_population, r') \<Rightarrow>
                     Inr (ga\<lparr>population := new_population\<rparr>, r'))))"

text \<open>The constructor of \<^verbatim>\<open>genetic_algorithm\<close>.\<close>

fun angles_loop ::
  "nfp_utls \<Rightarrow> config \<Rightarrow> genetic_algorithm \<Rightarrow> (string \<times> polygon) list \<Rightarrow> rng \<Rightarrow>
   error + (real list \<times> rng)"
where
  "angles_loop ut cfg ga [] r = Inr ([], r)"
| "angles_loop ut cfg ga (shape # shps) r =
     (case random_angle ut cfg ga shape r of
        Inl e \<Rightarrow> Inl e
      | Inr (a, r') \<Rightarrow>
          (case angles_loop ut cfg ga shps r' of
             Inl e \<Rightarrow> Inl e
           | Inr (angles, r'') \<Rightarrow> Inr (a # angles, r'')))"

fun mutants_loop ::
  "nfp_utls \<Rightarrow> config \<Rightarrow> genetic_algorithm \<Rightarrow> nat \<Rightarrow> individual list \<Rightarrow> rng \<Rightarrow>
   error + (individual list \<times> rng)"
where
  "mutants_loop ut cfg ga 0 pop r = Inr (pop, r)"
| "mutants_loop ut cfg ga (Suc n) pop r =
     (case pop of
        [] \<Rightarrow> Inl IndexError
      | seed # _ \<Rightarrow>
          (case mutate ut cfg ga seed r of
             Inl e \<Rightarrow> Inl e
           | Inr (mutant, r') \<Rightarrow> mutants_loop ut cfg ga n (pop @ [mutant]) r'))"

definition ga_init ::
  "nfp_utls \<Rightarrow> config \<Rightarrow> (string \<times> polygon) list \<Rightarrow> polygon \<Rightarrow> rng \<Rightarrow>
   error + (genetic_algorithm \<times> rng)"
where
  "ga_init ut cfg adam bin r =
     (let ga = \<lparr>bin_width = width bin, bin_height = height bin, bin_polygon = bin,
                 population = []\<rparr>
      in case angles_loop ut cfg ga adam r of
           Inl e \<Rightarrow> Inl e
         | Inr (angles, r1) \<Rightarrow>
             (case mutants_loop ut cfg ga (nat (populationSize cfg - 1))
                     [\<lparr>placement = adam, rotation = angles, fitness = None\<rparr>] r1 of
                Inl e \<Rightarrow> Inl e
              | Inr (pop, r2) \<Rightarrow> Inr (ga\<lparr>population := pop\<rparr>, r2)))"

section \<open>Fitness of a genome and the NFP cache\<close>

definition inner_key :: "string \<Rightarrow> real \<Rightarrow> nfp_key" where
  "inner_key b rb =
     \<lparr>A_id = ''-1'', B_id = b, inside = True, A_rotation = 0, B_rotation = rb\<rparr>"

definition outer_key :: "string \<Rightarrow> string \<Rightarrow> real \<Rightarrow> real \<Rightarrow> nfp_key" where
  "outer_key a b ra rb =
     \<lparr>A_id = a, B_id = b, inside = False, A_rotation = ra, B_rotation = rb\<rparr>"

text \<open>
  One look-up of \<^verbatim>\<open>find_fitness\<close>: a key that is not in the cache gives a pair to
  compute, a key that is there has its entry copied to \<^verbatim>\<open>new_cache\<close>.
\<close>

definition cache_step ::
  "nfp_cache \<Rightarrow> nfp_pair \<Rightarrow> nfp_pair list \<times> nfp_cache \<Rightarrow> nfp_pair list \<times> nfp_cache"
where
  "cache_step cache pr acc =
     (case cache (pair_key pr) of
        None \<Rightarrow> (fst acc @ [pr], snd acc)
      | Some v \<Rightarrow> (fst acc, (snd acc)(pair_key pr \<mapsto> v)))"

definition inner_pair ::
  "polygon option \<Rightarrow> (string \<times> polygon) list \<Rightarrow> real list \<Rightarrow> nat \<Rightarrow> nfp_pair"
where
  "inner_pair cont place_list rots i =
     \<lparr>pair_A = cont, pair_B = snd (place_list ! i),
      pair_key = inner_key (fst (place_list ! i)) (rots ! i)\<rparr>"

definition outer_pair :: "(string \<times> polygon) list \<Rightarrow> real list \<Rightarrow> nat \<Rightarrow> nat \<Rightarrow> nfp_pair" where
  "outer_pair place_list rots j i =
     \<lparr>pair_A = Some (snd (place_list ! j)), pair_B = snd (place_list ! i),
      pair_key = outer_key (fst (place_list ! j)) (fst (place_list ! i)) (rots ! j) (rots ! i)\<rparr>"

fun placed_loop ::
  "nfp_cache \<Rightarrow> (string \<times> polygon) list \<Rightarrow> real list \<Rightarrow> nat \<Rightarrow> nat list \<Rightarrow>
   nfp_pair list \<times> nfp_cache \<Rightarrow> nfp_pair list \<times> nfp_cache"
where
  "placed_loop cache place_list rots i [] acc = acc"
| "placed_loop cache place_list rots i (j # js) acc =
     placed_loop cache place_list rots i js
       (cache_step cache (outer_pair place_list rots j i) acc)"

fun parts_loop ::
  "nfp_cache \<Rightarrow> polygon option \<Rightarrow> (string \<times> polygon) list \<Rightarrow> real list \<Rightarrow> nat list \<Rightarrow>
   nfp_pair list \<times> nfp_cache \<Rightarrow> nfp_pair list \<times> nfp_cache"
where
  "parts_loop cache cont place_list rots [] acc = acc"
| "parts_loop cache cont place_list rots (i # idxs) acc =
     parts_loop cache cont place_list rots idxs
       (placed_loop cache place_list rots i [0..<i]
          (cache_step cache (inner_pair cont place_list rots i) acc))"

fun process_all ::
  "clipper \<Rightarrow> nfp_utls \<Rightarrow> config \<Rightarrow> nfp_pair list \<Rightarrow>
   error + (nfp_key \<times> ring list option) option list"
where
  "process_all cl ut cfg [] = Inr []"
| "process_all cl ut cfg (pr # prs) =
     (case process_nfp cl ut cfg (Some pr) of
        Inl e \<Rightarrow> Inl e
      | Inr x \<Rightarrow>
          (case process_all cl ut cfg prs of
             Inl e \<Rightarrow> Inl e
           | Inr xs \<Rightarrow> Inr (x # xs)))"

text \<open>The loop of \<^verbatim>\<open>generate_nfp\<close> that stores the computed NFPs.\<close>

fun store_loop :: "(nfp_key \<times> ring list option) option list \<Rightarrow> nfp_cache \<Rightarrow> nfp_cache" where
  "store_loop [] cache = cache"
| "store_loop (None # xs) cache = store_loop xs cache"
| "store_loop (Some kv # xs) cache = store_loop xs (cache(fst kv \<mapsto> snd kv))"

text \<open>
  The module \<^verbatim>\<open>tools.placement_worker\<close> is not among the sources: the worker is a
  parameter, a function of what its constructor receives and of the cache
  \<^verbatim>\<open>generate_nfp\<close> hands it (a deep copy, so the worker cannot change the nester's).
\<close>

type_synonym placement_worker =
  "polygon option \<Rightarrow> (string \<times> polygon \<times> real) list \<Rightarrow> string list \<Rightarrow> real list \<Rightarrow>
   config \<Rightarrow> nfp_cache \<Rightarrow> result"

text \<open>
  \<^verbatim>\<open>find_fitness\<close> followed by \<^verbatim>\<open>generate_nfp\<close>. Appending \<^verbatim>\<open>rotations[i]\<close> raises when
  the rotation list is shorter than the placement list.
\<close>

definition find_fitness ::
  "clipper \<Rightarrow> nfp_utls \<Rightarrow> placement_worker \<Rightarrow> config \<Rightarrow> nester \<Rightarrow> individual \<Rightarrow>
   error + (result \<times> nester)"
where
  "find_fitness cl ut wk cfg st indiv =
     (if length (rotation indiv) < length (placement indiv) then Inl IndexError
      else
        (let place_list = placement indiv;
             rots = rotation indiv;
             (nfp_pairs, new_cache) =
                parts_loop (nfp_cache st) (container st) place_list rots
                  [0..<length place_list] ([], Map.empty)
         in case process_all cl ut cfg nfp_pairs of
              Inl e \<Rightarrow> Inl e
            | Inr pair_list \<Rightarrow>
                (let cache' = store_loop pair_list new_cache
                 in Inr (wk (container st)
                           (map (\<lambda>i. (fst (place_list ! i), snd (place_list ! i), rots ! i))
                              [0..<length place_list])
                           (map fst place_list) rots cfg cache',
                         st\<lparr>nfp_cache := cache'\<rparr>))))"


section \<open>The orchestrator\<close>

text \<open>
  \<^verbatim>\<open>polygon_offset\<close>, called on a list of point dictionaries: \<^verbatim>\<open>polygon[0]\<close> and
  \<^verbatim>\<open>result[0]\<close> raise on an empty list.
\<close>

definition polygon_offset :: "clipper \<Rightarrow> config \<Rightarrow> ring \<Rightarrow> real \<Rightarrow> error + ring" where
  "polygon_offset cl cfg poly offset =
     (case poly of
        [] \<Rightarrow> Inl IndexError
      | _ # _ \<Rightarrow>
          (case OffsetExecute cl 2 (curveTolerance cfg) poly (1 * offset) of
             [] \<Rightarrow> Inl IndexError
           | res0 # _ \<Rightarrow> Inr res0))"

text \<open>\<^verbatim>\<open>str(i)\<close> for an index.\<close>

fun str_nat :: "nat \<Rightarrow> string" where
  "str_nat n =
     (if n < 10 then [char_of (48 + n)]
      else str_nat (n div 10) @ [char_of (48 + n mod 10)])"

fun faces_loop ::
  "clipper \<Rightarrow> config \<Rightarrow> polygon list \<Rightarrow> nat \<Rightarrow> error + (string \<times> polygon) list"
where
  "faces_loop cl cfg [] i = Inr []"
| "faces_loop cl cfg (shape # shps) i =
     (case polygon_offset cl cfg (points shape) (spacing cfg) of
        Inl e \<Rightarrow> Inl e
      | Inr pts \<Rightarrow>
          (case faces_loop cl cfg shps (Suc i) of
             Inl e \<Rightarrow> Inl e
           | Inr faces \<Rightarrow> Inr ((str_nat i, shape\<lparr>points := pts\<rparr>) # faces)))"

text \<open>The loop of \<^verbatim>\<open>launch_workers\<close> that evaluates the population.\<close>

fun fitness_loop ::
  "clipper \<Rightarrow> nfp_utls \<Rightarrow> placement_worker \<Rightarrow> config \<Rightarrow> nat list \<Rightarrow> nester \<Rightarrow>
   genetic_algorithm \<Rightarrow> error + (nester \<times> genetic_algorithm)"
where
  "fitness_loop cl ut wk cfg [] st ga = Inr (st, ga)"
| "fitness_loop cl ut wk cfg (i # idxs) st ga =
     (if i < length (population ga) then
        (case find_fitness cl ut wk cfg st (population ga ! i) of
           Inl e \<Rightarrow> Inl e
         | Inr (res, st') \<Rightarrow>
             fitness_loop cl ut wk cfg idxs (st'\<lparr>results := results st' @ [res]\<rparr>)
               (ga\<lparr>population :=
                     (population ga)[i := (population ga ! i)\<lparr>fitness := Some (res_fitness res)\<rparr>]\<rparr>))
      else Inl IndexError)"

fun best_loop :: "result list \<Rightarrow> result \<Rightarrow> result" where
  "best_loop [] best_result = best_result"
| "best_loop (p # ps) best_result =
     (if res_fitness p < res_fitness best_result then best_loop ps p
      else best_loop ps best_result)"

definition update_best :: "nester \<Rightarrow> nester" where
  "update_best st =
     (case results st of
        [] \<Rightarrow> st
      | res0 # _ \<Rightarrow>
          (let best_result = best_loop (results st) res0
           in if (case best st of None \<Rightarrow> True
                  | Some b \<Rightarrow> res_fitness best_result < res_fitness b)
              then st\<lparr>best := Some best_result\<rparr> else st))"

definition launch_workers ::
  "clipper \<Rightarrow> nfp_utls \<Rightarrow> placement_worker \<Rightarrow> config \<Rightarrow> nester \<Rightarrow> (string \<times> polygon) list \<Rightarrow>
   rng \<Rightarrow> error + (nester \<times> rng)"
where
  "launch_workers cl ut wk cfg st adam r =
     (case (case GA st of
              None \<Rightarrow>
                (case container st of
                   None \<Rightarrow> Inl TypeError
                 | Some c \<Rightarrow>
                     (case polygon_offset cl cfg (points c) (spacing cfg) of
                        Inl e \<Rightarrow> Inl e
                      | Inr pts \<Rightarrow> ga_init ut cfg adam (c\<lparr>points := pts\<rparr>) r))
            | Some ga \<Rightarrow> generation ut cfg ga r) of
        Inl e \<Rightarrow> Inl e
      | Inr (ga, r') \<Rightarrow>
          (case fitness_loop cl ut wk cfg [0..<nat (populationSize cfg)] st ga of
             Inl e \<Rightarrow> Inl e
           | Inr (st', ga') \<Rightarrow> Inr (update_best (st'\<lparr>GA := Some ga'\<rparr>), r')))"

text \<open>
  \<^verbatim>\<open>Nester.run\<close>. The outcome of a call: what it returned, the lines \<^verbatim>\<open>run\<close> itself
  printed, the nester and the random source after it. A container that is \<^verbatim>\<open>None\<close> or an empty
  dictionary is \<open>None\<close> here. \<^verbatim>\<open>launch_workers\<close> has no \<^verbatim>\<open>return\<close>, so a run that gets
  there returns \<^verbatim>\<open>None\<close> as well. \<^verbatim>\<open>sorted(.., reverse=True)\<close> keeps the order of faces of
  equal area, as the stable sort on the negated key does.
\<close>

record outcome =
  returned :: "result list option"
  printed :: "string list"
  nester_after :: nester
  rng_after :: rng

definition run ::
  "clipper \<Rightarrow> nfp_utls \<Rightarrow> placement_worker \<Rightarrow> config \<Rightarrow> nester \<Rightarrow> rng \<Rightarrow> error + outcome"
where
  "run cl ut wk cfg st r =
     (case container st of
        None \<Rightarrow>
          Inr \<lparr>returned = None, printed = [''Empty container. Aborting''],
               nester_after = st, rng_after = r\<rparr>
      | Some c \<Rightarrow>
          (if (case shapes st of None \<Rightarrow> True | Some shps \<Rightarrow> shps = []) then
             Inr \<lparr>returned = None, printed = [''Empty shapes. Aborting''],
                  nester_after = st, rng_after = r\<rparr>
           else
             (case faces_loop cl cfg (case shapes st of None \<Rightarrow> [] | Some shps \<Rightarrow> shps) 0 of
                Inl e \<Rightarrow> Inl e
              | Inr faces \<Rightarrow>
                  (case launch_workers cl ut wk cfg st
                          (sort_key (\<lambda>face. - area (snd face)) faces) r of
                     Inl e \<Rightarrow> Inl e
                   | Inr (st', r') \<Rightarrow>
                       Inr \<lparr>returned = None, printed = [],
                            nester_after = st', rng_after = r'\<rparr>))))"


declare str_nat.simps [simp del]

declare generation_loop.simps [simp del]

section \<open>Notions of the specification\<close>


text \<open>
  The order mutation in the words of the specification: going through the positions in
  order, a position whose coin came up is swapped with the next position, if there is
  one. The element that moved to the next position is the one that position then holds.
\<close>

fun swap_next :: "bool list \<Rightarrow> 'a list \<Rightarrow> 'a list" where
  "swap_next (c # cs) (x # y # xs) =
     (if c then y # swap_next cs (x # xs) else x # swap_next cs (y # xs))"
| "swap_next cs xs = xs"

text \<open>
  The keys a genome refers to: one inner key (A the container \<^verbatim>\<open>'-1'\<close>, B the part)
  for each part, and one outer key for each pair of parts, A the part placed before B.
\<close>

definition referenced_keys :: "individual \<Rightarrow> nfp_key list" where
  "referenced_keys g =
     map (\<lambda>i. inner_key (fst (placement g ! i)) (rotation g ! i)) [0..<length (placement g)] @
     concat (map (\<lambda>i. map (\<lambda>j. outer_key (fst (placement g ! j)) (fst (placement g ! i))
                                  (rotation g ! j) (rotation g ! i)) [0..<i])
               [0..<length (placement g)])"

text \<open>
  The invariant of the look-up loops of \<^verbatim>\<open>find_fitness\<close>, with \<open>K\<close> the keys looked up so
  far: \<^verbatim>\<open>new_cache\<close> is the cache restricted to \<open>K\<close>, and the pairs to compute have keys of
  \<open>K\<close> that the cache does not have.
\<close>

definition cache_inv :: "nfp_cache \<Rightarrow> nfp_key set \<Rightarrow> nfp_pair list \<times> nfp_cache \<Rightarrow> bool" where
  "cache_inv cache K acc \<longleftrightarrow>
     snd acc = cache |` K \<and> pair_key ` set (fst acc) \<subseteq> K - dom cache"

text \<open>
  A genome of the data model: an order of at least one part and a rotation vector of the
  same length.
\<close>

definition genome_ok :: "individual \<Rightarrow> bool" where
  "genome_ok g \<longleftrightarrow> placement g \<noteq> [] \<and> length (rotation g) = length (placement g)"

section \<open>Concrete inputs\<close>

text \<open>
  A clipping library for rings that are clean already: simplifying, cleaning and
  offsetting by nothing return the ring, the area is the shoelace area, and the Minkowski
  sum is that of two rectangles with sides along the axes, the rectangle spanned by the
  sums of the extreme coordinates, counter-clockwise.
\<close>

definition low :: "real list \<Rightarrow> real" where
  "low xs = (case xs of [] \<Rightarrow> 0 | x # _ \<Rightarrow> foldr min xs x)"

definition high :: "real list \<Rightarrow> real" where
  "high xs = (case xs of [] \<Rightarrow> 0 | x # _ \<Rightarrow> foldr max xs x)"

definition box_sum :: "ring \<Rightarrow> ring \<Rightarrow> ring list" where
  "box_sum a b =
     (if a = [] \<or> b = [] then []
      else [[(low (map fst a) + low (map fst b), low (map snd a) + low (map snd b)),
             (high (map fst a) + high (map fst b), low (map snd a) + low (map snd b)),
             (high (map fst a) + high (map fst b), high (map snd a) + high (map snd b)),
             (low (map fst a) + low (map fst b), high (map snd a) + high (map snd b))]])"

definition plain_clipper :: clipper where
  "plain_clipper =
     \<lparr>SimplifyPolygon = (\<lambda>p. Some [p]), Area = polygon_area,
      CleanPolygon = (\<lambda>p tol. Some p), MinkowskiSum = box_sum,
      OffsetExecute = (\<lambda>miter tol p delta. [p])\<rparr>"

text \<open>
  Geometry helpers that are exact for turns by a multiple of a right angle: the rotation
  about the origin with the extent of the rotated ring, and the inner NFP of a rectangle
  whose lower left corner is the origin.
\<close>

definition quarter_turn :: "ring \<Rightarrow> real \<Rightarrow> rotated" where
  "quarter_turn pts angle =
     (let q = (if angle = 90 then map (\<lambda>p. (- snd p, fst p)) pts
               else if angle = 180 then map (\<lambda>p. (- fst p, - snd p)) pts
               else if angle = 270 then map (\<lambda>p. (snd p, - fst p)) pts
               else pts)
      in \<lparr>rpoints = q, rwidth = high (map fst q) - low (map fst q),
          rheight = high (map snd q) - low (map snd q)\<rparr>)"

definition quarter_utls :: nfp_utls where
  "quarter_utls =
     \<lparr>rotate_polygon = quarter_turn,
      is_rectangle = (\<lambda>pts tol. True),
      nfp_rectangle = (\<lambda>a b. Some [[(0, 0),
         (high (map fst a) - high (map fst b), 0),
         (high (map fst a) - high (map fst b), high (map snd a) - high (map snd b)),
         (0, high (map snd a) - high (map snd b))]]),
      nfp_polygon = (\<lambda>a b ins se. None),
      point_in_polygon = (\<lambda>p poly. None),
      get_polygon_bounds = (\<lambda>pts. Some (low (map fst pts), low (map snd pts),
         high (map fst pts) - low (map fst pts), high (map snd pts) - low (map snd pts)))\<rparr>"

definition config0 :: config where
  "config0 =
     \<lparr>curveTolerance = 0.3, spacing = 0, rotations = 4, populationSize = 2,
      mutationRate = 10, useHoles = False, exploreConcave = False, BIN_HEIGHT = 50\<rparr>"

text \<open>A part of 20 by 10, clockwise, and the container of 100 by 50 of the spec's scenarios.\<close>

definition part_20_10 :: polygon where
  "part_20_10 =
     \<lparr>p_id = ''0'', points = [(0, 0), (0, 10), (20, 10), (20, 0)], area = 200,
      width = 0, height = 0\<rparr>"

definition bin_ring :: ring where
  "bin_ring = [(0, 0), (100, 0), (100, 50), (0, 50)]"

definition nester0 :: nester where
  "nester0 =
     \<lparr>container = None, shapes = None, shapes_max_length = 0, results = [],
      nfp_cache = Map.empty, GA = None, best = None, container_bounds = None\<rparr>"

text \<open>
  A random source whose every \<^verbatim>\<open>random.random()\<close> is 0.5 and whose raw integer draw is
  always 1, so that every \<^verbatim>\<open>randint(0, i)\<close> with \<open>i\<close> at least 1 is 1.
\<close>

definition rng0 :: rng where
  "rng0 = \<lparr>floats = (\<lambda>n. 0.5), fpos = 0, ints = (\<lambda>n. 1), ipos = 0\<rparr>"

text \<open>A part of 80 by 40, and the genetic algorithm's view of the container of 100 by 50.\<close>

definition part_80_40 :: polygon where
  "part_80_40 =
     \<lparr>p_id = ''0'', points = [(0, 0), (0, 40), (80, 40), (80, 0)], area = 3200,
      width = 0, height = 0\<rparr>"

definition ga0 :: genetic_algorithm where
  "ga0 =
     \<lparr>bin_width = 100, bin_height = 50,
      bin_polygon = \<lparr>p_id = ''-1'', points = bin_ring, area = 0, width = 100, height = 50\<rparr>,
      population = []\<rparr>"

text \<open>Two evaluated genomes over the same two parts.\<close>

definition genome_a :: individual where
  "genome_a =
     \<lparr>placement = [(''0'', part_80_40), (''1'', part_20_10)], rotation = [0, 90],
      fitness = Some 80\<rparr>"

definition genome_b :: individual where
  "genome_b =
     \<lparr>placement = [(''1'', part_20_10), (''0'', part_80_40)], rotation = [180, 0],
      fitness = Some 100\<rparr>"

text \<open>A placement worker that places nothing and charges one unit for every part.\<close>

definition idle_worker :: placement_worker where
  "idle_worker cont place_list ids rots cfg cache =
     \<lparr>res_fitness = real (length place_list), res_placements = []\<rparr>"

text \<open>A random source whose every \<^verbatim>\<open>random.random()\<close> is 0.05.\<close>

definition rng1 :: rng where
  "rng1 = \<lparr>floats = (\<lambda>n. 0.05), fpos = 0, ints = (\<lambda>n. 1), ipos = 0\<rparr>"

text \<open>
  A nester with the container and a cache of three entries: the inner key of part 0, the
  outer key of parts 0 and 1 at the rotations of \<open>genome_a\<close>, and a key of parts that are
  not there.
\<close>

definition stale_key :: nfp_key where
  "stale_key = outer_key ''7'' ''8'' 0 0"

definition nester1 :: nester where
  "nester1 =
     nester0\<lparr>container := Some (bin_polygon ga0),
             nfp_cache :=
               [inner_key ''0'' 0 \<mapsto> Some [[(0, 0), (0, 10), (20, 10), (20, 0)]],
                outer_key ''0'' ''1'' 0 90 \<mapsto> Some [[(- 10, 0), (- 10, 60), (80, 60), (80, 0)]],
                stale_key \<mapsto> None]\<rparr>"

text \<open>A genetic algorithm whose population is the two evaluated genomes, the worse first.\<close>

definition ga1 :: genetic_algorithm where
  "ga1 = ga0\<lparr>population := [genome_b, genome_a]\<rparr>"









section \<open>Properties\<close>

subsection \<open>Signed area and winding\<close>

lemma cross_sum_snoc:
  "xs \<noteq> [] \<Longrightarrow>
   cross_sum (xs @ [a]) = cross_sum xs + (fst (last xs) * snd a - fst a * snd (last xs))"
  by (induction xs rule: cross_sum.induct) auto

lemma cross_sum_Cons:
  "xs \<noteq> [] \<Longrightarrow>
   cross_sum (a # xs) = (fst a * snd (hd xs) - fst (hd xs) * snd a) + cross_sum xs"
  by (cases xs) auto

lemma cross_sum_rev: "cross_sum (rev xs) = - cross_sum xs"
proof (induction xs)
  case Nil
  then show ?case by simp
next
  case (Cons a xs)
  show ?case
  proof (cases "xs = []")
    case True
    then show ?thesis by simp
  next
    case False
    then show ?thesis
      using Cons.IH by (simp add: cross_sum_snoc cross_sum_Cons last_rev)
  qed
qed

text \<open>Reversing a ring negates its signed area.\<close>

lemma polygon_area_rev: "polygon_area (rev pts) = - polygon_area pts"
proof (cases pts)
  case Nil
  then show ?thesis by (simp add: polygon_area_def)
next
  case (Cons p ps)
  have ne: "rev pts \<noteq> []" using Cons by simp
  have "polygon_area (rev pts) = cross_sum (rev pts @ [hd (rev pts)]) / 2"
    using ne by (cases "rev pts") (auto simp: polygon_area_def)
  also have "cross_sum (rev pts @ [hd (rev pts)]) =
      cross_sum (rev pts) +
      (fst (last (rev pts)) * snd (hd (rev pts)) - fst (hd (rev pts)) * snd (last (rev pts)))"
    using ne by (rule cross_sum_snoc)
  also have "\<dots> = cross_sum (p # rev pts)"
    using ne Cons by (simp add: cross_sum_Cons hd_rev last_rev)
  also have "p # rev pts = rev (pts @ [p])" by simp
  also have "cross_sum (rev (pts @ [p])) = - cross_sum (pts @ [p])" by (rule cross_sum_rev)
  finally show ?thesis using Cons by (simp add: polygon_area_def)
qed

lemma make_shape_clockwise: "polygon_area (points (make_shape pts)) \<le> 0"
  by (simp add: make_shape_def Let_def polygon_area_rev)

lemma add_objects_loop_clockwise:
  "add_objects_loop cl cfg objs shps t = Inr (shps', t') \<Longrightarrow>
   \<exists>new. shps' = shps @ new \<and> length new = length objs \<and>
     list_all (\<lambda>s. polygon_area (points s) \<le> 0) new"
proof (induction objs arbitrary: shps t)
  case Nil
  then show ?case by simp
next
  case (Cons obj objs)
  then show ?case
    by (fastforce split: option.splits simp: make_shape_clockwise)
qed

text \<open>
  The shapes that \<^verbatim>\<open>add_objects\<close> appends are clockwise: the part of the winding invariant
  that the code establishes.
\<close>

lemma add_objects_clockwise:
  assumes "add_objects cl cfg st objs = Inr st'"
  shows "\<exists>new. shapes st' = Some ((case shapes st of None \<Rightarrow> [] | Some s \<Rightarrow> s) @ new) \<and>
           length new = length objs \<and> list_all (\<lambda>s. polygon_area (points s) \<le> 0) new"
  using assms add_objects_loop_clockwise[of cl cfg objs]
  by (fastforce simp: add_objects_def split: sum.splits prod.splits if_splits)

text \<open>
  C2. The claim: after ingestion every stored polygon, the shapes of \<^verbatim>\<open>add_objects\<close> and the
  container of \<^verbatim>\<open>add_container\<close>, has non-positive signed area. \<^verbatim>\<open>add_container\<close> has no
  orientation step: on the counter-clockwise container of the spec's scenarios, with a
  clipping library that returns the clean ring as it is, the stored ring is the given
  one and its signed area is 5000.
\<close>

theorem add_container_keeps_orientation:
  "\<exists>st. add_container plain_clipper quarter_utls config0 nester0 bin_ring = Inr st \<and>
        map_option points (container st) = Some bin_ring \<and>
        polygon_area bin_ring = 5000"
  by (simp add: add_container_def clean_polygon_def plain_clipper_def bin_ring_def
      nester0_def polygon_area_def Let_def)

subsection \<open>The outer NFP on the Minkowski path\<close>



















subsection \<open>Aborting a run\<close>

text \<open>
  C9. When the container is missing or empty, or the shape list is missing or empty,
  \<^verbatim>\<open>run\<close> returns \<^verbatim>\<open>None\<close> without raising, prints one diagnostic, and leaves the nester
  (its results, cache, genetic algorithm and best result) and the random source as they
  were.
\<close>

theorem run_aborts_on_empty_input:
  assumes "container st = None \<or> shapes st = None \<or> shapes st = Some []"
  shows "\<exists>out. run cl ut wk cfg st r = Inr out \<and> returned out = None \<and>
           (printed out = [''Empty container. Aborting''] \<or>
            printed out = [''Empty shapes. Aborting'']) \<and>
           nester_after out = st \<and> rng_after out = r"
  using assms by (auto simp: run_def split: option.splits)

theorem run_aborts_on_empty_input_witness:
  "run plain_clipper quarter_utls idle_worker config0 nester0 rng0 =
     Inr \<lparr>returned = None, printed = [''Empty container. Aborting''],
          nester_after = nester0, rng_after = rng0\<rparr>"
  using run_aborts_on_empty_input[of nester0 plain_clipper quarter_utls idle_worker config0 rng0]
  by (auto simp: nester0_def run_def)

subsection \<open>Selection of parents\<close>

lemma weighted_loop_member:
  "weighted_loop rand w pop idxs lo up = Some g \<Longrightarrow> \<forall>i\<in>set idxs. i < length pop \<Longrightarrow>
   g \<in> set pop"
  by (induction idxs arbitrary: lo up) (auto split: if_splits)

lemma weighted_pick_result:
  "weighted_pick pop r = (Inr g, pop', r') \<Longrightarrow> pop' = pop \<and> g \<in> set pop"
  by (auto simp: weighted_pick_def Let_def random_random_def split: if_splits option.splits
      dest: weighted_loop_member)

lemma weighted_pick_population: "fst (snd (weighted_pick pop r)) = pop"
  by (auto simp: weighted_pick_def Let_def random_random_def split: if_splits option.splits)

text \<open>
  C10. A call of \<^verbatim>\<open>random_weighted_individual\<close> with a genome of the population to
  exclude leaves the stored population without (the first occurrence of) that genome,
  one shorter, whether or not the call then raises. In \<^verbatim>\<open>generation\<close> the first call
  (no exclusion) leaves the population alone and returns one of its members, and the
  second call, excluding that member, shrinks the population by one.
\<close>

theorem selection_shrinks_population:
  "(ex \<in> set pop \<longrightarrow>
      fst (snd (random_weighted_individual (Some ex) pop r)) = remove1 ex pop \<and>
      length (fst (snd (random_weighted_individual (Some ex) pop r))) = length pop - 1) \<and>
   (random_weighted_individual None pop r = (Inr male, pop1, r1) \<longrightarrow>
      pop1 = pop \<and> male \<in> set pop \<and>
      fst (snd (random_weighted_individual (Some male) pop1 r1)) = remove1 male pop \<and>
      length (fst (snd (random_weighted_individual (Some male) pop1 r1))) = length pop - 1)"
  by (auto simp: random_weighted_individual_def weighted_pick_population length_remove1
      dest: weighted_pick_result)

theorem selection_shrinks_population_witness:
  "fst (snd (random_weighted_individual (Some genome_a) [genome_a, genome_b] rng0))
   = [genome_b]"
  using selection_shrinks_population[of genome_a "[genome_a, genome_b]" rng0]
  by simp

subsection \<open>The random valid angle\<close>

lemma angle_loop_value:
  "angle_loop ut ga shape angle_list i angles =
     (if list_ex (fits_bin ut ga shape) angles then angle_list ! i else 0)"
  by (induction angles) auto

lemma shuffle_loop_Suc:
  "shuffle_loop (Suc k) data r =
     shuffle_loop k (data[Suc k := data ! (ints r (ipos r) mod (k + 2)),
                          ints r (ipos r) mod (k + 2) := data ! Suc k])
       (r\<lparr>ipos := Suc (ipos r)\<rparr>)"
proof -
  have "nat (int (Suc k) - 0 + 1) = k + 2" by simp
  then show ?thesis by (simp add: randint_def)
qed

lemma shuffle_unit_draws:
  assumes "\<forall>n. ints r n = 1"
  shows "shuffle_array [a, b, c, d] r = Inr ([a, c, d, b], r\<lparr>ipos := ipos r + 3\<rparr>)"
proof -
  have m: "Suc 0 mod (k + 2) = Suc 0" for k by simp
  have i: "ints r n = Suc 0" for n using assms by simp
  have "shuffle_array [a, b, c, d] r = shuffle_loop (Suc (Suc (Suc 0))) [a, b, c, d] r"
    by (simp add: shuffle_array_def numeral_3_eq_3)
  also have "\<dots> = shuffle_loop (Suc (Suc 0)) [a, d, c, b] (r\<lparr>ipos := Suc (ipos r)\<rparr>)"
    by (subst shuffle_loop_Suc) (simp add: i m del: shuffle_loop.simps(2))
  also have "\<dots> = shuffle_loop (Suc 0) [a, c, d, b] (r\<lparr>ipos := Suc (Suc (ipos r))\<rparr>)"
    by (subst shuffle_loop_Suc) (simp add: i m del: shuffle_loop.simps(2))
  also have "\<dots> = shuffle_loop 0 [a, c, d, b] (r\<lparr>ipos := Suc (Suc (Suc (ipos r)))\<rparr>)"
    by (subst shuffle_loop_Suc) (simp add: i m del: shuffle_loop.simps(2))
  finally show ?thesis by simp
qed

lemma angles_of_config0:
  "map (\<lambda>i. real i * (360 / real_of_int (rotations config0))) [0..<nat (rotations config0)]
   = [0, 90, 180, 270]"
proof -
  have "[0..<nat (rotations config0)] = [0, Suc 0, Suc (Suc 0), Suc (Suc (Suc 0))]"
    by (simp add: config0_def upt_rec numeral_eq_Suc)
  then show ?thesis by (simp add: config0_def)
qed

text \<open>
  C7. The claim: \<^verbatim>\<open>random_angle\<close> returns the first angle of the shuffled list whose rotated
  bounds fit the bin. The source returns \<^verbatim>\<open>angle_list[i]\<close> with the \<open>i\<close> left by the loop
  that built the list, the last element of the shuffled list. With four rotations, a
  shuffle that gives the order 0, 180, 270, 90, a part of 80 by 40 and a bin of 100 by
  50: the first angle, 0, fits; the call returns 90, which does not fit.
\<close>

theorem random_angle_returns_last:
  "shuffle_array (map (\<lambda>i. real i * (360 / real_of_int (rotations config0)))
      [0..<nat (rotations config0)]) rng0
     = Inr ([0, 180, 270, 90], rng0\<lparr>ipos := 3\<rparr>) \<and>
   fits_bin quarter_utls ga0 (''0'', part_80_40) 0 \<and>
   \<not> fits_bin quarter_utls ga0 (''0'', part_80_40) 90 \<and>
   random_angle quarter_utls config0 ga0 (''0'', part_80_40) rng0
     = Inr (90, rng0\<lparr>ipos := 3\<rparr>)"
proof -
  have sh: "shuffle_array [0, 90, 180, 270::real] rng0 = Inr ([0, 180, 270, 90], rng0\<lparr>ipos := 3\<rparr>)"
    using shuffle_unit_draws[of rng0 "0::real" 90 180 270] by (simp add: rng0_def)
  have f0: "fits_bin quarter_utls ga0 (''0'', part_80_40) 0"
    by (simp add: fits_bin_def quarter_utls_def quarter_turn_def ga0_def part_80_40_def
        low_def high_def)
  have f90: "\<not> fits_bin quarter_utls ga0 (''0'', part_80_40) 90"
    by (simp add: fits_bin_def quarter_utls_def quarter_turn_def ga0_def part_80_40_def
        low_def high_def)
  have n: "nat (rotations config0 - 1) = Suc (Suc (Suc 0))" by (simp add: config0_def)
  have "random_angle quarter_utls config0 ga0 (''0'', part_80_40) rng0
     = Inr (90, rng0\<lparr>ipos := 3\<rparr>)"
    unfolding random_angle_def angles_of_config0 sh n using f0
    by (simp add: angle_loop_value)
  then show ?thesis unfolding angles_of_config0 using sh f0 f90 by simp
qed

subsection \<open>Crossover\<close>

lemma contains_iff: "contains gene shape_id \<longleftrightarrow> shape_id \<in> set (map fst gene)"
  by (induction gene) auto

lemma mate_loop_result:
  assumes "\<forall>i\<in>set idxs. i < length (rotation other)" and "length rot = length gene"
  shows "\<exists>gene' rot'. mate_loop other idxs gene rot = Inr (gene', rot') \<and>
           length rot' = length gene' \<and>
           set (map fst gene') =
             set (map fst gene) \<union> (\<lambda>i. fst (placement other ! i)) ` set idxs \<and>
           (distinct (map fst gene) \<longrightarrow> distinct (map fst gene'))"
  using assms
proof (induction idxs arbitrary: gene rot)
  case Nil
  then show ?case by simp
next
  case (Cons i idxs)
  have rest: "\<forall>i\<in>set idxs. i < length (rotation other)" and here: "i < length (rotation other)"
    using Cons.prems(1) by simp_all
  show ?case
  proof (cases "contains gene (fst (placement other ! i))")
    case True
    then have mem: "fst (placement other ! i) \<in> set (map fst gene)"
      by (simp add: contains_iff)
    from Cons.IH[OF rest Cons.prems(2)] obtain gene' rot' where
      r: "mate_loop other idxs gene rot = Inr (gene', rot')" and l: "length rot' = length gene'"
      and s: "set (map fst gene') =
                set (map fst gene) \<union> (\<lambda>i. fst (placement other ! i)) ` set idxs"
      and d: "distinct (map fst gene) \<longrightarrow> distinct (map fst gene')" by blast
    have "mate_loop other (i # idxs) gene rot = Inr (gene', rot')" using True r by simp
    moreover have "set (map fst gene') =
        set (map fst gene) \<union> (\<lambda>i. fst (placement other ! i)) ` set (i # idxs)"
      using s mem by auto
    ultimately show ?thesis using l d by blast
  next
    case False
    then have nmem: "fst (placement other ! i) \<notin> set (map fst gene)"
      by (simp add: contains_iff)
    have len: "length (rot @ [rotation other ! i]) = length (gene @ [placement other ! i])"
      using Cons.prems(2) by simp
    from Cons.IH[OF rest len] obtain gene' rot' where
      r: "mate_loop other idxs (gene @ [placement other ! i]) (rot @ [rotation other ! i])
            = Inr (gene', rot')"
      and l: "length rot' = length gene'"
      and s: "set (map fst gene') = set (map fst (gene @ [placement other ! i])) \<union>
                (\<lambda>i. fst (placement other ! i)) ` set idxs"
      and d: "distinct (map fst (gene @ [placement other ! i])) \<longrightarrow> distinct (map fst gene')"
      by blast
    have "mate_loop other (i # idxs) gene rot = Inr (gene', rot')"
      using False here r by simp
    moreover have "set (map fst gene') =
        set (map fst gene) \<union> (\<lambda>i. fst (placement other ! i)) ` set (i # idxs)"
      using s by auto
    moreover have "distinct (map fst gene) \<longrightarrow> distinct (map fst gene')"
      using d nmem by simp
    ultimately show ?thesis using l by blast
  qed
qed

lemma randint_cut:
  assumes "n \<noteq> 0"
  shows "\<exists>c. randint 0 (int n - 1) r = Inr (int c, r\<lparr>ipos := Suc (ipos r)\<rparr>) \<and> c < n"
proof -
  have "nat (int n - 1 - 0 + 1) = n" by simp
  then show ?thesis using assms
    by (auto simp: randint_def intro!: exI[of _ "ints r (ipos r) mod n"])
qed

lemma index_image: "(\<lambda>i. f (xs ! i)) ` set (rev [0..<length xs]) = set (map f xs)"
proof -
  have "map (\<lambda>i. f (xs ! i)) [0..<length xs] = map f xs"
    by (rule nth_equalityI) simp_all
  then have "set (map (\<lambda>i. f (xs ! i)) [0..<length xs]) = set (map f xs)"
    by (rule arg_cong)
  moreover have "set (map (\<lambda>i. f (xs ! i)) [0..<length xs])
      = (\<lambda>i. f (xs ! i)) ` set (rev [0..<length xs])"
    unfolding set_rev by (rule set_map)
  ultimately show ?thesis by (simp only:)
qed

lemma child_ids:
  assumes "distinct (map fst start)"
    and "set (map fst start) = set (map fst (placement other))"
    and "length rots = length start"
    and "length (rotation other) = length (placement other)"
  shows "\<exists>gene rot.
           mate_loop other (rev [0..<length (placement other)]) (take c start) (take c rots)
             = Inr (gene, rot) \<and>
           length rot = length gene \<and> distinct (map fst gene) \<and>
           set (map fst gene) = set (map fst start)"
proof -
  have idx: "\<forall>i\<in>set (rev [0..<length (placement other)]). i < length (rotation other)"
    using assms(4) by simp
  have len: "length (take c rots) = length (take c start)" using assms(3) by simp
  from mate_loop_result[OF idx len] obtain gene rot where
    res: "mate_loop other (rev [0..<length (placement other)]) (take c start) (take c rots)
            = Inr (gene, rot)"
    and l: "length rot = length gene"
    and s: "set (map fst gene) = set (map fst (take c start)) \<union>
              (\<lambda>i. fst (placement other ! i)) ` set (rev [0..<length (placement other)])"
    and d: "distinct (map fst (take c start)) \<longrightarrow> distinct (map fst gene)" by blast
  have "distinct (map fst (take c start))"
    using assms(1) by (simp add: take_map[symmetric] distinct_take)
  with d have dg: "distinct (map fst gene)" by simp
  have "set (map fst (take c start)) \<subseteq> set (map fst start)"
    using set_take_subset[of c start] by auto
  then have "set (map fst gene) = set (map fst start)"
    using s index_image[of fst "placement other"] assms(2) by auto
  with res l dg show ?thesis by blast
qed

text \<open>
  C5. For two parents whose placement lists are permutations of the same set of distinct
  shape ids (each with as many rotations as placements, and not empty, so that the cut
  point can be drawn), \<^verbatim>\<open>mate\<close> returns two children; the multiset of shape ids of each
  child is that of the parents, and each child has as many rotations as placements.
\<close>

theorem mate_conserves_permutation:
  assumes "distinct (map fst (placement male))" and "distinct (map fst (placement female))"
    and "set (map fst (placement male)) = set (map fst (placement female))"
    and "length (rotation male) = length (placement male)"
    and "length (rotation female) = length (placement female)"
    and "placement male \<noteq> []"
  shows "\<exists>child1 child2 r'. mate male female r = Inr ((child1, child2), r') \<and>
           mset (map fst (placement child1)) = mset (map fst (placement male)) \<and>
           mset (map fst (placement child2)) = mset (map fst (placement male)) \<and>
           length (rotation child1) = length (placement child1) \<and>
           length (rotation child2) = length (placement child2)"
proof -
  from assms(6) have "length (placement male) \<noteq> 0" by simp
  from randint_cut[OF this, of r] obtain c where
    cut: "randint 0 (int (length (placement male)) - 1) r = Inr (int c, r\<lparr>ipos := Suc (ipos r)\<rparr>)"
    by blast
  from child_ids[OF assms(1) assms(3) assms(4) assms(5), of c] obtain gene1 rot1 where
    g1: "mate_loop female (rev [0..<length (placement female)])
           (take c (placement male)) (take c (rotation male)) = Inr (gene1, rot1)"
    and l1: "length rot1 = length gene1" and d1: "distinct (map fst gene1)"
    and s1: "set (map fst gene1) = set (map fst (placement male))" by blast
  from child_ids[OF assms(2) assms(3)[symmetric] assms(5) assms(4), of c] obtain gene2 rot2 where
    g2: "mate_loop male (rev [0..<length (placement male)])
           (take c (placement female)) (take c (rotation female)) = Inr (gene2, rot2)"
    and l2: "length rot2 = length gene2" and d2: "distinct (map fst gene2)"
    and s2: "set (map fst gene2) = set (map fst (placement female))" by blast
  have m1: "mset (map fst gene1) = mset (map fst (placement male))"
    using set_eq_iff_mset_eq_distinct[OF d1 assms(1)] s1 by blast
  have m2: "mset (map fst gene2) = mset (map fst (placement male))"
    using set_eq_iff_mset_eq_distinct[OF d2 assms(1)] s2 assms(3) by blast
  show ?thesis
    using cut g1 g2 l1 l2 m1 m2 by (simp add: mate_def)
qed

theorem mate_conserves_permutation_witness:
  "\<exists>child1 child2 r'. mate genome_a genome_b rng0 = Inr ((child1, child2), r') \<and>
     mset (map fst (placement child1)) = mset [''0'', ''1''] \<and>
     mset (map fst (placement child2)) = mset [''0'', ''1''] \<and>
     length (rotation child1) = length (placement child1) \<and>
     length (rotation child2) = length (placement child2)"
  using mate_conserves_permutation[of genome_a genome_b rng0]
  by (simp add: genome_a_def genome_b_def insert_commute)

subsection \<open>Mutation\<close>

lemma shuffle_loop_total:
  "\<exists>data' r'. shuffle_loop k data r = Inr (data', r') \<and> fpos r' = fpos r \<and> floats r' = floats r"
proof (induction k arbitrary: data r)
  case 0
  then show ?case by simp
next
  case (Suc k)
  show ?case
    unfolding shuffle_loop_Suc
    using Suc.IH[of "data[Suc k := data ! (ints r (ipos r) mod (k + 2)),
                          ints r (ipos r) mod (k + 2) := data ! Suc k]" "r\<lparr>ipos := Suc (ipos r)\<rparr>"]
    by simp
qed

lemma random_angle_total:
  "\<exists>a r'. random_angle ut cfg ga shape r = Inr (a, r') \<and> fpos r' = fpos r \<and> floats r' = floats r"
proof -
  obtain al r' where "shuffle_array
      (map (\<lambda>i. real i * (360 / real_of_int (rotations cfg))) [0..<nat (rotations cfg)]) r
      = Inr (al, r')" "fpos r' = fpos r" "floats r' = floats r"
    unfolding shuffle_array_def using shuffle_loop_total by blast
  then show ?thesis by (simp add: random_angle_def)
qed

lemma swap_next_mset: "mset (swap_next cs xs) = mset xs"
  by (induction cs xs rule: swap_next.induct) auto

lemma swap_next_length: "length (swap_next cs xs) = length xs"
  by (induction cs xs rule: swap_next.induct) auto

lemma swap_in_place:
  "(pre @ x # y # rest)[length pre := (pre @ x # y # rest) ! (length pre + 1),
      length pre + 1 := (pre @ x # y # rest) ! length pre] = pre @ y # x # rest"
  by (simp add: list_update_append nth_append)

lemma coins_Suc:
  "map (\<lambda>j. floats r (fpos r + j) < rate) [0..<Suc m] =
     (floats r (fpos r) < rate) #
     map (\<lambda>j. floats (r\<lparr>fpos := Suc (fpos r)\<rparr>) (fpos (r\<lparr>fpos := Suc (fpos r)\<rparr>) + j) < rate) [0..<m]"
  by (simp add: map_upt_Suc del: upt_Suc)

lemma upt_head: "[k..<k + Suc n] = k # [Suc k..<Suc k + n]"
  by (simp add: upt_conv_Cons del: upt_Suc)

lemma swap_loop_refines_aux:
  "length xs = m \<Longrightarrow>
   swap_loop rate [length pre..<length pre + length xs] (pre @ xs) r =
     (pre @ swap_next (map (\<lambda>j. floats r (fpos r + j) < rate) [0..<length xs]) xs,
      r\<lparr>fpos := fpos r + length xs\<rparr>)"
proof (induction m arbitrary: xs pre r)
  case 0
  then show ?case by simp
next
  case (Suc m)
  then obtain x rest where xs: "xs = x # rest" and lr: "length rest = m"
    by (cases xs) auto
  let ?r' = "r\<lparr>fpos := Suc (fpos r)\<rparr>"
  have idx: "[length pre..<length pre + length xs] =
      length pre # [length (pre @ [x])..<length (pre @ [x]) + length rest]"
    using upt_head[of "length pre" "length rest"] by (simp add: xs del: upt_Suc)
  show ?case
  proof (cases rest)
    case Nil
    then show ?thesis using upt_head[of "length pre" 0] by (simp add: xs random_random_def del: upt_Suc)
  next
    case (Cons y rest')
    have ih1: "swap_loop rate [length (pre @ [y])..<length (pre @ [y]) + length (x # rest')]
                 ((pre @ [y]) @ (x # rest')) ?r' =
      ((pre @ [y]) @ swap_next (map (\<lambda>j. floats ?r' (fpos ?r' + j) < rate) [0..<length (x # rest')]) (x # rest'),
       ?r'\<lparr>fpos := fpos ?r' + length (x # rest')\<rparr>)"
      using lr Cons by (intro Suc.IH) simp
    have ih2: "swap_loop rate [length (pre @ [x])..<length (pre @ [x]) + length (y # rest')]
                 ((pre @ [x]) @ (y # rest')) ?r' =
      ((pre @ [x]) @ swap_next (map (\<lambda>j. floats ?r' (fpos ?r' + j) < rate) [0..<length (y # rest')]) (y # rest'),
       ?r'\<lparr>fpos := fpos ?r' + length (y # rest')\<rparr>)"
      using lr Cons by (intro Suc.IH) simp
    have step: "swap_loop rate [length pre..<length pre + length xs] (pre @ xs) r =
       (if floats r (fpos r) < rate
        then swap_loop rate [length (pre @ [y])..<length (pre @ [y]) + length (x # rest')]
               ((pre @ [y]) @ (x # rest')) ?r'
        else swap_loop rate [length (pre @ [x])..<length (pre @ [x]) + length (y # rest')]
               ((pre @ [x]) @ (y # rest')) ?r')"
      unfolding idx using swap_in_place[of pre x y rest']
      by (simp add: xs Cons random_random_def)
    have coins: "map (\<lambda>j. floats r (fpos r + j) < rate) [0..<length xs] =
       (floats r (fpos r) < rate) #
         map (\<lambda>j. floats ?r' (fpos ?r' + j) < rate) [0..<length (y # rest')]"
      using coins_Suc[of r rate "length (y # rest')"] by (simp add: xs Cons)
    show ?thesis
      unfolding step coins using ih1 ih2 by (simp add: xs Cons)
  qed
qed

lemma swap_loop_refines:
  "swap_loop rate [0..<length pl] pl r =
     (swap_next (map (\<lambda>j. floats r (fpos r + j) < rate) [0..<length pl]) pl,
      r\<lparr>fpos := fpos r + length pl\<rparr>)"
  using swap_loop_refines_aux[of pl "length pl" rate "[]" r] by simp


lemma mutate_result:
  assumes "placement g \<noteq> []" and "length (rotation g) = length (placement g)"
    and "n = length (placement g)" and "rate = 0.01 * mutationRate cfg"
  shows "\<exists>g' r'. mutate ut cfg ga g r = Inr (g', r') \<and>
           placement g' =
             swap_next (map (\<lambda>j. floats r (fpos r + j) < rate) [0..<n]) (placement g) \<and>
           mset (placement g') = mset (placement g) \<and>
           (if floats r (fpos r + n) < rate
            then \<exists>a r''. random_angle ut cfg ga (last (placement g'))
                            (r\<lparr>fpos := fpos r + n + 1\<rparr>) = Inr (a, r'') \<and>
                          rotation g' = (rotation g)[n - 1 := a]
            else rotation g' = rotation g) \<and>
           (\<forall>j. j \<noteq> n - 1 \<longrightarrow> rotation g' ! j = rotation g ! j) \<and>
           length (rotation g') = length (rotation g) \<and>
           fitness g' = None"
proof -
  define pl where "pl = swap_next (map (\<lambda>j. floats r (fpos r + j) < rate) [0..<n]) (placement g)"
  define r1 where "r1 = r\<lparr>fpos := fpos r + n\<rparr>"
  have sw: "swap_loop rate [0..<length (placement g)] (placement g) r = (pl, r1)"
    unfolding pl_def r1_def assms(3) by (rule swap_loop_refines)
  have len: "length pl = n" by (simp add: pl_def swap_next_length assms(3))
  have ne: "pl \<noteq> []" using len assms(1,3) by auto
  have ms: "mset pl = mset (placement g)" by (simp add: pl_def swap_next_mset)
  have u: "random_random r1 = (floats r (fpos r + n), r\<lparr>fpos := fpos r + n + 1\<rparr>)"
    by (simp add: random_random_def r1_def)
  have lst: "pl ! (length pl - 1) = last pl" using ne by (simp add: last_conv_nth)
  show ?thesis
  proof (cases "floats r (fpos r + n) < rate")
    case True
    from random_angle_total obtain a r'' where
      ra: "random_angle ut cfg ga (last pl) (r\<lparr>fpos := fpos r + n + 1\<rparr>) = Inr (a, r'')"
      by blast
    have "mutate ut cfg ga g r =
        Inr (\<lparr>placement = pl, rotation = (rotation g)[n - 1 := a], fitness = None\<rparr>, r'')"
      unfolding mutate_def assms(4)[symmetric] sw Let_def prod.case u
      using True ra ne len assms(1,2,3) lst by simp
    then show ?thesis using True ra ms by (auto simp: pl_def)
  next
    case False
    have "mutate ut cfg ga g r =
        Inr (\<lparr>placement = pl, rotation = rotation g, fitness = None\<rparr>, r\<lparr>fpos := fpos r + n + 1\<rparr>)"
      unfolding mutate_def assms(4)[symmetric] sw Let_def prod.case u
      using False by simp
    then show ?thesis using False ms by (auto simp: pl_def)
  qed
qed

text \<open>
  C8. For a genome with a non-empty placement list and as many rotations, \<^verbatim>\<open>mutate\<close>
  returns a clone. Each position has a draw of its own: the clone's placement list is
  the parent's with every position whose draw is below \<open>0.01 * mutationRate\<close> swapped with
  the next position, in order, so it is a permutation of the parent's. One more draw
  decides the rotation: below the rate, the one rotation entry at the last index is
  what \<^verbatim>\<open>random_angle\<close> gives for the last placed part; otherwise the rotation list is
  the parent's. Every other rotation entry is the parent's. The clone has no fitness.
\<close>

theorem mutate_changes:
  assumes "placement g \<noteq> []" and "length (rotation g) = length (placement g)"
    and "n = length (placement g)" and "rate = 0.01 * mutationRate cfg"
  shows "\<exists>g' r'. mutate ut cfg ga g r = Inr (g', r') \<and>
           placement g' =
             swap_next (map (\<lambda>j. floats r (fpos r + j) < rate) [0..<n]) (placement g) \<and>
           mset (placement g') = mset (placement g) \<and>
           (if floats r (fpos r + n) < rate
            then \<exists>a r''. random_angle ut cfg ga (last (placement g'))
                            (r\<lparr>fpos := fpos r + n + 1\<rparr>) = Inr (a, r'') \<and>
                          rotation g' = (rotation g)[n - 1 := a]
            else rotation g' = rotation g) \<and>
           (\<forall>j. j \<noteq> n - 1 \<longrightarrow> rotation g' ! j = rotation g ! j) \<and>
           length (rotation g') = length (rotation g) \<and>
           fitness g' = None"
  using assms by (rule mutate_result)

theorem mutate_changes_witness:
  "\<exists>g' r'. mutate quarter_utls config0 ga0 genome_a rng1 = Inr (g', r') \<and>
     placement g' = [(''1'', part_20_10), (''0'', part_80_40)] \<and>
     rotation g' ! 0 = 0 \<and> length (rotation g') = 2"
proof -
  have c: "map (\<lambda>j. floats rng1 (fpos rng1 + j) < 0.01 * mutationRate config0)
             [0..<length (placement genome_a)] = [True, True]"
    by (simp add: rng1_def config0_def genome_a_def upt_rec)
  from mutate_changes[of genome_a "length (placement genome_a)" "0.01 * mutationRate config0"
      config0 quarter_utls ga0 rng1]
  show ?thesis
    unfolding c by (auto simp: genome_a_def)
qed

subsection \<open>The NFP cache across an evaluation\<close>

lemma cache_step_inv:
  assumes "cache_inv cache K acc"
  shows "cache_inv cache (insert (pair_key pr) K) (cache_step cache pr acc)"
proof (cases "cache (pair_key pr)")
  case None
  have "cache |` insert (pair_key pr) K = cache |` K"
    using None by (auto simp: restrict_map_def fun_eq_iff)
  then show ?thesis using assms None
    by (auto simp: cache_inv_def cache_step_def)
next
  case (Some v)
  have "cache |` insert (pair_key pr) K = (cache |` K)(pair_key pr \<mapsto> v)"
    using Some by (auto simp: restrict_map_def fun_eq_iff)
  then show ?thesis using assms Some
    by (auto simp: cache_inv_def cache_step_def)
qed

lemma placed_loop_inv:
  assumes "cache_inv cache K acc"
  shows "cache_inv cache (K \<union> (\<lambda>j. pair_key (outer_pair place_list rots j i)) ` set js)
           (placed_loop cache place_list rots i js acc)"
  using assms
proof (induction js arbitrary: K acc)
  case Nil
  then show ?case by simp
next
  case (Cons j js)
  have eq: "K \<union> (\<lambda>j. pair_key (outer_pair place_list rots j i)) ` set (j # js) =
      insert (pair_key (outer_pair place_list rots j i)) K \<union>
        (\<lambda>j. pair_key (outer_pair place_list rots j i)) ` set js"
    by auto
  show ?case
    unfolding placed_loop.simps eq
    by (rule Cons.IH[OF cache_step_inv[OF Cons.prems]])
qed

lemma parts_loop_inv:
  assumes "cache_inv cache K acc"
  shows "cache_inv cache
           (K \<union> (\<Union>i\<in>set idxs. insert (pair_key (inner_pair cont place_list rots i))
                     ((\<lambda>j. pair_key (outer_pair place_list rots j i)) ` set [0..<i])))
           (parts_loop cache cont place_list rots idxs acc)"
  using assms
proof (induction idxs arbitrary: K acc)
  case Nil
  then show ?case by simp
next
  case (Cons i idxs)
  let ?K1 = "insert (pair_key (inner_pair cont place_list rots i)) K \<union>
             (\<lambda>j. pair_key (outer_pair place_list rots j i)) ` set [0..<i]"
  have inv1: "cache_inv cache ?K1
          (placed_loop cache place_list rots i [0..<i]
             (cache_step cache (inner_pair cont place_list rots i) acc))"
    by (rule placed_loop_inv[OF cache_step_inv[OF Cons.prems]])
  have eq: "K \<union> (\<Union>i\<in>set (i # idxs). insert (pair_key (inner_pair cont place_list rots i))
                     ((\<lambda>j. pair_key (outer_pair place_list rots j i)) ` set [0..<i])) =
      ?K1 \<union> (\<Union>i\<in>set idxs. insert (pair_key (inner_pair cont place_list rots i))
                     ((\<lambda>j. pair_key (outer_pair place_list rots j i)) ` set [0..<i]))"
    by auto
  show ?case
    unfolding parts_loop.simps eq by (rule Cons.IH[OF inv1])
qed

lemma visited_keys:
  "(\<Union>i\<in>set [0..<length (placement g)].
      insert (pair_key (inner_pair cont (placement g) (rotation g) i))
        ((\<lambda>j. pair_key (outer_pair (placement g) (rotation g) j i)) ` set [0..<i])) =
   set (referenced_keys g)"
  by (auto simp: referenced_keys_def inner_pair_def outer_pair_def)

lemma process_nfp_key:
  "process_nfp cl ut cfg (Some pr) = Inr (Some kv) \<Longrightarrow> fst kv = pair_key pr"
  by (auto simp: process_nfp_def process_inner_def process_outer_def Let_def
      split: option.splits sum.splits if_splits)

lemma process_all_keys:
  "process_all cl ut cfg prs = Inr xs \<Longrightarrow> Some kv \<in> set xs \<Longrightarrow> fst kv \<in> pair_key ` set prs"
proof (induction prs arbitrary: xs)
  case Nil
  then show ?case by simp
next
  case (Cons pr prs)
  then show ?case
    by (auto split: sum.splits dest: process_nfp_key)
qed

lemma store_loop_other:
  "\<forall>kv. Some kv \<in> set xs \<longrightarrow> fst kv \<noteq> k \<Longrightarrow> store_loop xs c k = c k"
  by (induction xs c rule: store_loop.induct) auto

lemma store_loop_dom:
  assumes "k \<in> dom (store_loop xs c)" and "k \<notin> dom c"
  shows "\<exists>kv. Some kv \<in> set xs \<and> fst kv = k"
proof (rule ccontr)
  assume "\<not> (\<exists>kv. Some kv \<in> set xs \<and> fst kv = k)"
  then have "store_loop xs c k = c k" by (intro store_loop_other) blast
  with assms show False by (simp add: domIff)
qed

text \<open>
  C4. When \<^verbatim>\<open>find_fitness\<close> has evaluated a genome, every key of the NFP cache is a key
  the genome refers to (one inner key per part, one outer key per pair of an earlier and
  a later part), and every such key that the cache had before the call has the value it
  had before.
\<close>

theorem cache_pruned_and_kept:
  assumes "find_fitness cl ut wk cfg st g = Inr (res, st')"
  shows "dom (nfp_cache st') \<subseteq> set (referenced_keys g) \<and>
         (\<forall>k\<in>set (referenced_keys g).
            k \<in> dom (nfp_cache st) \<longrightarrow> nfp_cache st' k = nfp_cache st k)"
proof -
  define K where "K = set (referenced_keys g)"
  define acc where "acc = parts_loop (nfp_cache st) (container st) (placement g) (rotation g)
                            [0..<length (placement g)] ([], Map.empty)"
  have "cache_inv (nfp_cache st) {} ([], Map.empty)"
    by (simp add: cache_inv_def)
  from parts_loop_inv[OF this, of "container st" "placement g" "rotation g"
      "[0..<length (placement g)]"]
  have inv: "cache_inv (nfp_cache st) K acc"
    unfolding K_def acc_def visited_keys[of "container st" g, symmetric] by simp
  obtain pairs new_cache where acc: "acc = (pairs, new_cache)" by (cases acc)
  have nc: "new_cache = nfp_cache st |` K"
    and pk: "pair_key ` set pairs \<subseteq> K - dom (nfp_cache st)"
    using inv by (simp_all add: cache_inv_def acc)
  from assms obtain pair_list where
    pa: "process_all cl ut cfg pairs = Inr pair_list"
    and st': "nfp_cache st' = store_loop pair_list new_cache"
    by (auto simp: find_fitness_def Let_def acc_def[symmetric] acc
        split: if_splits sum.splits)
  have keys: "fst kv \<in> K - dom (nfp_cache st)" if "Some kv \<in> set pair_list" for kv
    using process_all_keys[OF pa that] pk by auto
  have "dom (nfp_cache st') \<subseteq> K"
  proof
    fix k assume k: "k \<in> dom (nfp_cache st')"
    show "k \<in> K"
    proof (cases "k \<in> dom new_cache")
      case True
      then show ?thesis by (auto simp: nc restrict_map_def split: if_splits)
    next
      case False
      from store_loop_dom[OF k[unfolded st'] False] keys show ?thesis by auto
    qed
  qed
  moreover have "nfp_cache st' k = nfp_cache st k"
    if "k \<in> K" "k \<in> dom (nfp_cache st)" for k
  proof -
    have "\<forall>kv. Some kv \<in> set pair_list \<longrightarrow> fst kv \<noteq> k" using keys that(2) by blast
    then have "store_loop pair_list new_cache k = new_cache k" by (rule store_loop_other)
    then show ?thesis using that(1) by (simp add: st' nc)
  qed
  ultimately show ?thesis by (simp add: K_def)
qed


theorem cache_pruned_and_kept_witness:
  "\<exists>res st'. find_fitness plain_clipper quarter_utls idle_worker config0 nester1 genome_a
       = Inr (res, st') \<and>
     nfp_cache st' stale_key = None \<and>
     nfp_cache st' (inner_key ''0'' 0) = nfp_cache nester1 (inner_key ''0'' 0)"
proof -
  have pl: "parts_loop (nfp_cache nester1) (container nester1) (placement genome_a)
              (rotation genome_a) [0..<length (placement genome_a)] ([], Map.empty)
            = ([inner_pair (container nester1) (placement genome_a) (rotation genome_a) 1],
               [inner_key ''0'' 0 \<mapsto> Some [[(0, 0), (0, 10), (20, 10), (20, 0)]],
                outer_key ''0'' ''1'' 0 90 \<mapsto> Some [[(- 10, 0), (- 10, 60), (80, 60), (80, 0)]]])"
    by (simp add: nester1_def nester0_def genome_a_def upt_rec cache_step_def inner_pair_def
        outer_pair_def inner_key_def outer_key_def stale_key_def fun_upd_twist)
  have pa: "\<exists>kv. process_all plain_clipper quarter_utls config0
              [inner_pair (container nester1) (placement genome_a) (rotation genome_a) 1]
            = Inr [Some kv]"
    by (simp add: process_nfp_def process_inner_def inner_pair_def nester1_def nester0_def
        inner_key_def Let_def)
  have "\<exists>res st'. find_fitness plain_clipper quarter_utls idle_worker config0 nester1 genome_a
       = Inr (res, st')"
    unfolding find_fitness_def Let_def pl prod.case using pa
    by (auto simp: genome_a_def)
  then obtain res st' where
    ff: "find_fitness plain_clipper quarter_utls idle_worker config0 nester1 genome_a
           = Inr (res, st')" by blast
  have ref: "set (referenced_keys genome_a) =
      {inner_key ''0'' 0, inner_key ''1'' 90, outer_key ''0'' ''1'' 0 90}"
    by (auto simp: referenced_keys_def genome_a_def upt_rec)
  have "stale_key \<notin> set (referenced_keys genome_a)"
    unfolding ref by (simp add: stale_key_def inner_key_def outer_key_def)
  moreover have "inner_key ''0'' 0 \<in> dom (nfp_cache nester1)"
    by (simp add: nester1_def nester0_def)
  ultimately show ?thesis
    using cache_pruned_and_kept[OF ff] ff ref by (auto simp: domIff subset_iff)
qed

subsection \<open>A generation\<close>

lemma weighted_pick_ok:
  assumes "pop \<noteq> []"
  shows "\<exists>g r'. weighted_pick pop r = (Inr g, pop, r') \<and> g \<in> set pop"
proof (cases "weighted_loop (floats r (fpos r)) (1 / real (length pop)) pop [0..<length pop] 0
                (1 / real (length pop))")
  case None
  then show ?thesis using assms
    by (simp add: weighted_pick_def random_random_def)
next
  case (Some g)
  then have "g \<in> set pop" by (rule weighted_loop_member) simp
  then show ?thesis using assms Some
    by (simp add: weighted_pick_def random_random_def)
qed

lemma select_parents:
  assumes "2 \<le> length pop"
  shows "\<exists>male female r1 r2.
           random_weighted_individual None pop r = (Inr male, pop, r1) \<and>
           random_weighted_individual (Some male) pop r1 = (Inr female, remove1 male pop, r2) \<and>
           male \<in> set pop \<and> female \<in> set pop"
proof -
  have "pop \<noteq> []" using assms by auto
  from weighted_pick_ok[OF this, of r] obtain male r1 where
    m: "weighted_pick pop r = (Inr male, pop, r1)" "male \<in> set pop" by blast
  have "length (remove1 male pop) = length pop - 1" using m(2) by (simp add: length_remove1)
  then have "remove1 male pop \<noteq> []" using assms by auto
  from weighted_pick_ok[OF this, of r1] obtain female r2 where
    f: "weighted_pick (remove1 male pop) r1 = (Inr female, remove1 male pop, r2)"
       "female \<in> set (remove1 male pop)" by blast
  have "female \<in> set pop" using f(2) set_remove1_subset[of male pop] by blast
  with m f show ?thesis by (auto simp: random_weighted_individual_def)
qed

lemma child_ok:
  assumes "genome_ok other" and "length rots = length start"
  shows "\<exists>gene rot.
           mate_loop other (rev [0..<length (placement other)]) (take c start) (take c rots)
             = Inr (gene, rot) \<and> length rot = length gene \<and> gene \<noteq> []"
proof -
  have idx: "\<forall>i\<in>set (rev [0..<length (placement other)]). i < length (rotation other)"
    using assms(1) by (simp add: genome_ok_def)
  have len: "length (take c rots) = length (take c start)" using assms(2) by simp
  from mate_loop_result[OF idx len] obtain gene rot where
    res: "mate_loop other (rev [0..<length (placement other)]) (take c start) (take c rots)
            = Inr (gene, rot)"
    and l: "length rot = length gene"
    and s: "set (map fst gene) = set (map fst (take c start)) \<union>
              (\<lambda>i. fst (placement other ! i)) ` set (rev [0..<length (placement other)])"
    by blast
  have "set (map fst (placement other)) \<noteq> {}" using assms(1) by (simp add: genome_ok_def)
  then have "set (map fst gene) \<noteq> {}"
    unfolding s index_image[of fst "placement other"] by blast
  then have "gene \<noteq> []" by auto
  with res l show ?thesis by blast
qed

lemma mate_ok:
  assumes "genome_ok male" and "genome_ok female"
  shows "\<exists>children r'. mate male female r = Inr (children, r') \<and>
           genome_ok (fst children) \<and> genome_ok (snd children)"
proof -
  from assms(1) have "length (placement male) \<noteq> 0" by (simp add: genome_ok_def)
  from randint_cut[OF this, of r] obtain c where
    cut: "randint 0 (int (length (placement male)) - 1) r = Inr (int c, r\<lparr>ipos := Suc (ipos r)\<rparr>)"
    by blast
  have lm: "length (rotation male) = length (placement male)"
    and lf: "length (rotation female) = length (placement female)"
    using assms by (simp_all add: genome_ok_def)
  from child_ok[OF assms(2) lm, of c] obtain gene1 rot1 where
    g1: "mate_loop female (rev [0..<length (placement female)])
           (take c (placement male)) (take c (rotation male)) = Inr (gene1, rot1)"
    "length rot1 = length gene1" "gene1 \<noteq> []" by blast
  from child_ok[OF assms(1) lf, of c] obtain gene2 rot2 where
    g2: "mate_loop male (rev [0..<length (placement male)])
           (take c (placement female)) (take c (rotation female)) = Inr (gene2, rot2)"
    "length rot2 = length gene2" "gene2 \<noteq> []" by blast
  show ?thesis using cut g1 g2 by (simp add: mate_def genome_ok_def)
qed

lemma mutate_ok:
  assumes "genome_ok g"
  shows "\<exists>g' r'. mutate ut cfg ga g r = Inr (g', r')"
  using mutate_result[of g "length (placement g)" "0.01 * mutationRate cfg" cfg ut ga r] assms
  by (auto simp: genome_ok_def)

lemma generation_loop_total:
  assumes "\<forall>g\<in>set (population ga). genome_ok g"
    and "int (length new) < populationSize cfg \<longrightarrow>
           populationSize cfg - int (length new) + 2 \<le> 2 * int (length (population ga))"
  shows "\<exists>new' r'. generation_loop ut cfg ga new r = Inr (new', r')"
  using assms
proof (induction "nat (populationSize cfg - int (length new))" arbitrary: ga new r
    rule: less_induct)
  case less
  show ?case
  proof (cases "int (length new) < populationSize cfg")
    case False
    then show ?thesis by (subst generation_loop.simps) simp
  next
    case True
    with less.prems(2) have two: "2 \<le> length (population ga)" by linarith
    from select_parents[OF two, of r] obtain male female r1 r2 where
      sel: "random_weighted_individual None (population ga) r = (Inr male, population ga, r1)"
        "random_weighted_individual (Some male) (population ga) r1 =
           (Inr female, remove1 male (population ga), r2)"
      and mem: "male \<in> set (population ga)" "female \<in> set (population ga)" by blast
    have okm: "genome_ok male" and okf: "genome_ok female" using mem less.prems(1) by auto
    from mate_ok[OF okm okf, of r2] obtain children r3 where
      ma: "mate male female r2 = Inr (children, r3)"
      and okc: "genome_ok (fst children)" "genome_ok (snd children)" by blast
    from mutate_ok[OF okc(1), of ut cfg ga r3] obtain m0 r4 where
      mu0: "mutate ut cfg ga (fst children) r3 = Inr (m0, r4)" by blast
    from mutate_ok[OF okc(2), of ut cfg ga r4] obtain m1 r5 where
      mu1: "mutate ut cfg ga (snd children) r4 = Inr (m1, r5)" by blast
    let ?ga' = "ga\<lparr>population := remove1 male (population ga)\<rparr>"
    have ok': "\<forall>g\<in>set (population ?ga'). genome_ok g"
      using less.prems(1) set_remove1_subset[of male "population ga"] by auto
    have len': "length (population ?ga') = length (population ga) - 1"
      using mem(1) by (simp add: length_remove1)
    show ?thesis
    proof (cases "int (length (new @ [m0])) < populationSize cfg")
      case both: True
      have "\<exists>new' r'. generation_loop ut cfg ?ga' (new @ [m0] @ [m1]) r5 = Inr (new', r')"
      proof (rule less.hyps[OF _ ok'])
        show "nat (populationSize cfg - int (length (new @ [m0] @ [m1])))
                < nat (populationSize cfg - int (length new))"
          using True by simp
        show "int (length (new @ [m0] @ [m1])) < populationSize cfg \<longrightarrow>
                populationSize cfg - int (length (new @ [m0] @ [m1])) + 2
                  \<le> 2 * int (length (population ?ga'))"
          using less.prems(2) True two len' by simp
      qed
      then show ?thesis
        using True both sel ma mu0 mu1 by (subst generation_loop.simps) simp
    next
      case one: False
      have "\<exists>new' r'. generation_loop ut cfg ?ga' (new @ [m0]) r4 = Inr (new', r')"
      proof (rule less.hyps[OF _ ok'])
        show "nat (populationSize cfg - int (length (new @ [m0])))
                < nat (populationSize cfg - int (length new))"
          using True by simp
        show "int (length (new @ [m0])) < populationSize cfg \<longrightarrow>
                populationSize cfg - int (length (new @ [m0])) + 2
                  \<le> 2 * int (length (population ?ga'))"
          using one by simp
      qed
      then show ?thesis
        using True one sel ma mu0 by (subst generation_loop.simps) simp
    qed
  qed
qed

lemma generation_loop_length:
  assumes "generation_loop ut cfg ga new r = Inr (new', r')"
    and "new \<noteq> []" and "int (length new) \<le> populationSize cfg"
  shows "int (length new') = populationSize cfg \<and> hd new' = hd new"
  using assms
proof (induction "nat (populationSize cfg - int (length new))" arbitrary: ga new r
    rule: less_induct)
  case less
  show ?case
  proof (cases "int (length new) < populationSize cfg")
    case False
    then have "generation_loop ut cfg ga new r = Inr (new, r)"
      by (subst generation_loop.simps) simp
    with less.prems False show ?thesis by simp
  next
    case True
    from less.prems(1) True obtain ga2 ext r2 where
      rec: "generation_loop ut cfg ga2 (new @ ext) r2 = Inr (new', r')"
      and ext: "ext \<noteq> []" "int (length (new @ ext)) \<le> populationSize cfg"
      by (subst (asm) generation_loop.simps)
         (auto split: sum.splits prod.splits if_splits)
    have "nat (populationSize cfg - int (length (new @ ext)))
            < nat (populationSize cfg - int (length new))"
      using True ext(1) by (cases ext) auto
    from less.hyps[OF this rec _ ext(2)] less.prems(2) show ?thesis by simp
  qed
qed


lemma sort_key_head:
  assumes "sort_key f xs = e # rest"
  shows "e \<in> set xs \<and> (\<forall>x\<in>set xs. f e \<le> f x)"
proof -
  have s: "set (e # rest) = set xs" using assms set_sort[of f xs] by simp
  have "sorted (map f (e # rest))" using assms sorted_sort_key[of f xs] by simp
  then have "\<forall>x\<in>set (e # rest). f e \<le> f x" by auto
  with s show ?thesis by auto
qed

text \<open>
  C6. When \<^verbatim>\<open>generation\<close> completes, with \<^verbatim>\<open>populationSize\<close> at least 1, the new population has
  exactly \<^verbatim>\<open>populationSize\<close> members and its first member is a genome of the previous
  population, as it was, whose fitness is the lowest: the head of the previous population
  in the stable order by fitness. And \<^verbatim>\<open>generation\<close> does complete when every genome of
  the population carries a fitness value and is a genome of the data model, and the
  population has at least \<^verbatim>\<open>populationSize\<close> members.
\<close>

theorem generation_elitism:
  "(generation ut cfg ga r = Inr (ga', r') \<and> 1 \<le> populationSize cfg \<longrightarrow>
      int (length (population ga')) = populationSize cfg \<and>
      hd (population ga') \<in> set (population ga) \<and>
      (\<forall>g\<in>set (population ga). fitness_of (hd (population ga')) \<le> fitness_of g) \<and>
      hd (population ga') = hd (sort_key fitness_of (population ga))) \<and>
   ((\<forall>g\<in>set (population ga). fitness g \<noteq> None \<and> genome_ok g) \<and>
    1 \<le> populationSize cfg \<and> populationSize cfg \<le> int (length (population ga)) \<longrightarrow>
      (\<exists>ga'' r''. generation ut cfg ga r = Inr (ga'', r'')))"
proof (intro conjI impI)
  assume a: "generation ut cfg ga r = Inr (ga', r') \<and> 1 \<le> populationSize cfg"
  then obtain elite rest new' where
    srt: "sort_key fitness_of (population ga) = elite # rest"
    and lp: "generation_loop ut cfg (ga\<lparr>population := elite # rest\<rparr>) [elite] r = Inr (new', r')"
    and ga': "ga' = ga\<lparr>population := new'\<rparr>"
    by (auto simp: generation_def split: if_splits list.splits sum.splits)
  from generation_loop_length[OF lp] a
  have len: "int (length new') = populationSize cfg" and h: "hd new' = elite" by simp_all
  from sort_key_head[OF srt]
  have e: "elite \<in> set (population ga)" "\<forall>g\<in>set (population ga). fitness_of elite \<le> fitness_of g"
    by simp_all
  show "int (length (population ga')) = populationSize cfg" using len ga' by simp
  show "hd (population ga') \<in> set (population ga)" using h e ga' by simp
  show "\<forall>g\<in>set (population ga). fitness_of (hd (population ga')) \<le> fitness_of g"
    using h e ga' by simp
  show "hd (population ga') = hd (sort_key fitness_of (population ga))"
    using h srt ga' by simp
next
  assume b: "(\<forall>g\<in>set (population ga). fitness g \<noteq> None \<and> genome_ok g) \<and>
    1 \<le> populationSize cfg \<and> populationSize cfg \<le> int (length (population ga))"
  then have ne: "population ga \<noteq> []" by auto
  then have "sort_key fitness_of (population ga) \<noteq> []"
    using length_sort[of fitness_of "population ga"] by (metis length_0_conv)
  then obtain elite rest where
    srt: "sort_key fitness_of (population ga) = elite # rest"
    by (cases "sort_key fitness_of (population ga)") auto
  have st: "set (elite # rest) = set (population ga)"
    using set_sort[of fitness_of "population ga"] srt by simp
  have ln: "length (elite # rest) = length (population ga)"
    using length_sort[of fitness_of "population ga"] srt by simp
  have ok: "\<forall>g\<in>set (population (ga\<lparr>population := elite # rest\<rparr>)). genome_ok g"
    using b st by auto
  have inv: "int (length [elite]) < populationSize cfg \<longrightarrow>
      populationSize cfg - int (length [elite]) + 2
        \<le> 2 * int (length (population (ga\<lparr>population := elite # rest\<rparr>)))"
    using b ln by auto
  from generation_loop_total[OF ok inv, of ut r] obtain new' r' where
    "generation_loop ut cfg (ga\<lparr>population := elite # rest\<rparr>) [elite] r = Inr (new', r')"
    by blast
  moreover have "\<not> list_ex (\<lambda>g. fitness g = None) (population ga)"
    using b by (auto simp: list_ex_iff)
  ultimately show "\<exists>ga'' r''. generation ut cfg ga r = Inr (ga'', r'')"
    using srt by (simp add: generation_def)
qed

theorem generation_elitism_witness:
  "\<exists>ga' r'. generation quarter_utls config0 ga1 rng0 = Inr (ga', r') \<and>
     hd (population ga') = genome_a \<and> length (population ga') = 2"
proof -
  have pop: "population ga1 = [genome_b, genome_a]" by (simp add: ga1_def)
  have ok: "(\<forall>g\<in>set (population ga1). fitness g \<noteq> None \<and> genome_ok g) \<and>
    1 \<le> populationSize config0 \<and> populationSize config0 \<le> int (length (population ga1))"
    by (simp add: pop genome_a_def genome_b_def genome_ok_def config0_def)
  have srt: "hd (sort_key fitness_of (population ga1)) = genome_a"
    by (simp add: pop fitness_of_def genome_a_def genome_b_def)
  have p: "populationSize config0 = 2" by (simp add: config0_def)
  from generation_elitism[of quarter_utls config0 ga1 rng0] ok obtain ga' r' where
    g: "generation quarter_utls config0 ga1 rng0 = Inr (ga', r')" by blast
  from generation_elitism[of quarter_utls config0 ga1 rng0 ga' r'] g srt p
  show ?thesis by auto
qed

end
